theory Spec2Isabelle
  imports Complex_Main "HOL-Library.Multiset"
begin

section \<open>The chart data parser of \<^verbatim>\<open>frontend/src/utils/chartDataParser.js\<close>\<close>

text \<open>
  The development embeds the chart extraction engine: the validator
  (\<^verbatim>\<open>isValidChartData\<close>), the dataset signature (\<^verbatim>\<open>createDataSignature\<close>),
  the title and type resolution, the type classifier, the layout function and the
  pipeline \<^verbatim>\<open>parseChartsFromResponse\<close> with its four extraction strategies.

  Conventions of the embedding.
  \<^item> A JavaScript string is a \<^typ>\<open>string\<close>: a list of code units, here the code units
    \<open>0..255\<close>. The bullet character of two character classes of the source lies outside
    that range and so matches no character of the embedded strings.
  \<^item> The built-ins whose results the source only consumes are parameters, collected in the
    record \<open>env\<close>: \<^verbatim>\<open>JSON.parse\<close>, the number-to-string conversion,
    \<^verbatim>\<open>String.prototype.localeCompare\<close>, \<^verbatim>\<open>parseFloat\<close>, the addition of two
    numbers (IEEE 754 in the source) and the clock.
  \<^item> Regular expressions are terms of the datatype \<open>re\<close>, run by a backtracking matcher
    written after the matcher semantics of ECMA-262 (continuation passing, leftmost start,
    greedy and lazy quantifiers in priority order).
  \<^item> An exception is a value \<open>Inl e\<close>; a loop of the source that would not end is the
    value \<open>None\<close>.
  \<^item> The matcher is the one of the language specification, which has no resource limit. An
    engine gives up a match whose backtracking outgrows its stack and raises a
    \<^verbatim>\<open>RangeError\<close>; that outcome is outside the embedding. What is proved of
    \<^verbatim>\<open>parseChartsFromResponse\<close> below holds of the runs in which no match does so.
\<close>

subsection \<open>Numbers and values\<close>

datatype jsnum = Finite rat | PosInf | NegInf | NaN

definition isNaN :: "jsnum \<Rightarrow> bool" where
  "isNaN n = (n = NaN)"

definition isFinite :: "jsnum \<Rightarrow> bool" where
  "isFinite n = (case n of Finite q \<Rightarrow> True | _ \<Rightarrow> False)"

text \<open>The truthiness of a number: \<open>0\<close>, \<open>-0\<close> and \<open>NaN\<close> are falsy.\<close>

definition truthy_num :: "jsnum \<Rightarrow> bool" where
  "truthy_num n = (n \<noteq> NaN \<and> n \<noteq> Finite 0)"

text \<open>
  The values \<^verbatim>\<open>JSON.parse\<close> returns. An object is the list of its own enumerable
  properties in the order of \<^verbatim>\<open>Object.keys\<close>; \<^verbatim>\<open>undefined\<close> is the \<open>None\<close> of
  an option.
\<close>

datatype json =
    JNull
  | JBool bool
  | JNum jsnum
  | JStr string
  | JArr "json list"
  | JObj "(string \<times> json) list"

datatype error = SyntaxError | TypeError

record env =
  JSON_parse :: "string \<Rightarrow> json option"
  Number_toString :: "jsnum \<Rightarrow> string"
  localeCompare :: "string \<Rightarrow> string \<Rightarrow> int"
  parseFloat :: "string \<Rightarrow> jsnum"
  num_add :: "jsnum \<Rightarrow> jsnum \<Rightarrow> jsnum"
  Date_now :: nat

subsection \<open>Strings\<close>

text \<open>\<^verbatim>\<open>WhiteSpace\<close> and \<^verbatim>\<open>LineTerminator\<close> of ECMA-262, below code unit 256.\<close>

definition isWhiteSpace :: "char \<Rightarrow> bool" where
  "isWhiteSpace c =
     (c \<in> set [CHR 0x09, CHR 0x0A, CHR 0x0B, CHR 0x0C, CHR 0x0D, CHR 0x20, CHR 0xA0])"

definition trim :: "string \<Rightarrow> string" where
  "trim s = rev (dropWhile isWhiteSpace (rev (dropWhile isWhiteSpace s)))"

definition substring :: "string \<Rightarrow> nat \<Rightarrow> nat \<Rightarrow> string" where
  "substring s a b =
     (let a' = min a (length s); b' = min b (length s)
      in take (max a' b' - min a' b') (drop (min a' b') s))"

fun indexOf_from :: "nat \<Rightarrow> string \<Rightarrow> string \<Rightarrow> nat option" where
  "indexOf_from i sub [] = (if sub = [] then Some i else None)"
| "indexOf_from i sub (c # cs) =
     (if take (length sub) (c # cs) = sub then Some i else indexOf_from (Suc i) sub cs)"

definition indexOf :: "string \<Rightarrow> string \<Rightarrow> nat option" where
  "indexOf s sub = indexOf_from 0 sub s"

definition str_includes :: "string \<Rightarrow> string \<Rightarrow> bool" where
  "str_includes s sub = (indexOf s sub \<noteq> None)"

text \<open>\<^verbatim>\<open>s.split(c)\<close> for a separator of one character.\<close>

fun split_chr :: "char \<Rightarrow> string \<Rightarrow> string list" where
  "split_chr c [] = [[]]"
| "split_chr c (x # xs) =
     (if x = c then [] # split_chr c xs
      else (case split_chr c xs of [] \<Rightarrow> [[x]] | w # ws \<Rightarrow> (x # w) # ws))"

definition in_range :: "char \<Rightarrow> char \<Rightarrow> char \<Rightarrow> bool" where
  "in_range a b c = ((of_char a :: nat) \<le> of_char c \<and> (of_char c :: nat) \<le> of_char b)"

definition lower_chr :: "char \<Rightarrow> char" where
  "lower_chr c =
     (if in_range CHR ''A'' CHR ''Z'' c
         \<or> (in_range (CHR 0xC0) (CHR 0xDE) c \<and> c \<noteq> CHR 0xD7)
      then char_of (of_char c + (32 :: nat)) else c)"

definition upper_ascii :: "char \<Rightarrow> char" where
  "upper_ascii c = (if in_range CHR ''a'' CHR ''z'' c then char_of (of_char c - (32 :: nat)) else c)"

definition toLowerCase :: "string \<Rightarrow> string" where
  "toLowerCase s = map lower_chr s"

fun join :: "string \<Rightarrow> string list \<Rightarrow> string" where
  "join sep [] = []"
| "join sep [s] = s"
| "join sep (s # t # ss) = s @ sep @ join sep (t # ss)"

text \<open>The decimal form of a counter or an array index (a non-negative integer).\<close>

fun show_nat :: "nat \<Rightarrow> string" where
  "show_nat n =
     (if n < 10 then [char_of (48 + n)] else show_nat (n div 10) @ [char_of (48 + n mod 10)])"

declare show_nat.simps [simp del]

subsection \<open>Regular expressions\<close>

datatype cc = Lit char | Range char char | Space | NonSpace | Word | Digit

fun cc_mem :: "cc \<Rightarrow> char \<Rightarrow> bool" where
  "cc_mem (Lit a) c = (c = a)"
| "cc_mem (Range a b) c = in_range a b c"
| "cc_mem Space c = isWhiteSpace c"
| "cc_mem NonSpace c = (\<not> isWhiteSpace c)"
| "cc_mem Digit c = in_range CHR ''0'' CHR ''9'' c"
| "cc_mem Word c =
     (in_range CHR ''a'' CHR ''z'' c \<or> in_range CHR ''A'' CHR ''Z'' c
      \<or> in_range CHR ''0'' CHR ''9'' c \<or> c = CHR ''_'')"

text \<open>
  \<open>Chars neg cs\<close> is a character class (negated when \<open>neg\<close>), \<open>Rep greedy min max r\<close> a
  quantifier, \<open>Grp i r\<close> the capturing group \<open>i\<close>, \<open>Bol\<close> and \<open>Eol\<close> the anchors
  \<^verbatim>\<open>^\<close> and \<^verbatim>\<open>$\<close> (no pattern of the source has the multiline flag).
\<close>

datatype re =
    Chars bool "cc list"
  | Seq re re
  | Alt re re
  | Rep bool nat "nat option" re
  | Grp nat re
  | Bol
  | Eol
  | Eps

text \<open>
  The matcher state: whether the position is index 0, the input from the position on, and
  the captures so far (the latest first).
\<close>

record st =
  bol :: bool
  rest :: string
  caps :: "(nat \<times> string) list"

text \<open>
  \<^verbatim>\<open>RepeatMatcher\<close> of ECMA-262: once the minimum is reached an iteration that
  consumes nothing fails. The test \<open>length (rest y) \<le> length (rest x)\<close> holds of every state
  a matcher hands to its continuation (matchers only consume input); it is written out so
  that the recursion is well founded by itself.
\<close>

function rep :: "(st \<Rightarrow> (st \<Rightarrow> 'a option) \<Rightarrow> 'a option) \<Rightarrow> bool \<Rightarrow> nat \<Rightarrow> nat option
    \<Rightarrow> st \<Rightarrow> (st \<Rightarrow> 'a option) \<Rightarrow> 'a option" where
  "rep mb g mn mx x c =
    (if mx = Some 0 then c x
     else let d = (\<lambda>y. if mn = 0 \<and> length (rest y) = length (rest x) then None
                       else if length (rest y) \<le> length (rest x)
                            then rep mb g (mn - 1) (map_option (\<lambda>n. n - 1) mx) y c
                            else None)
          in if mn \<noteq> 0 then mb x d
             else if g then (case mb x d of Some z \<Rightarrow> Some z | None \<Rightarrow> c x)
             else (case c x of Some z \<Rightarrow> Some z | None \<Rightarrow> mb x d))"
  by pat_completeness auto
termination
  by (relation "measure (\<lambda>(mb, g, mn, mx, x, c). mn + length (rest x))") auto

declare rep.simps [simp del]

fun m :: "re \<Rightarrow> st \<Rightarrow> (st \<Rightarrow> 'a option) \<Rightarrow> 'a option" where
  "m (Chars neg cs) x k =
     (case rest x of
        [] \<Rightarrow> None
      | c # r \<Rightarrow> if list_ex (\<lambda>a. cc_mem a c) cs \<noteq> neg
                 then k (x\<lparr>bol := False, rest := r\<rparr>) else None)"
| "m (Seq a b) x k = m a x (\<lambda>y. m b y k)"
| "m (Alt a b) x k = (case m a x k of Some z \<Rightarrow> Some z | None \<Rightarrow> m b x k)"
| "m (Rep g mn mx a) x k = rep (m a) g mn mx x k"
| "m (Grp i a) x k =
     m a x (\<lambda>y. k (y\<lparr>caps := (i, take (length (rest x) - length (rest y)) (rest x)) # caps y\<rparr>))"
| "m Bol x k = (if bol x then k x else None)"
| "m Eol x k = (if rest x = [] then k x else None)"
| "m Eps x k = k x"

text \<open>A match: where it starts, its text, and its captures.\<close>

record rmatch =
  index :: nat
  whole :: string
  groups :: "(nat \<times> string) list"

definition group :: "rmatch \<Rightarrow> nat \<Rightarrow> string option" where
  "group mt i = map_of (groups mt) i"

text \<open>The leftmost match in \<open>s\<close>, the suffix of the input that starts at index \<open>i\<close>.\<close>

fun search_from :: "re \<Rightarrow> bool \<Rightarrow> nat \<Rightarrow> string \<Rightarrow> rmatch option" where
  "search_from r b i [] =
     (case m r \<lparr>bol = b, rest = [], caps = []\<rparr> Some of
        Some y \<Rightarrow> Some \<lparr>index = i, whole = [], groups = caps y\<rparr>
      | None \<Rightarrow> None)"
| "search_from r b i (c # cs) =
     (case m r \<lparr>bol = b, rest = c # cs, caps = []\<rparr> Some of
        Some y \<Rightarrow> Some \<lparr>index = i, whole = take (Suc (length cs) - length (rest y)) (c # cs),
                         groups = caps y\<rparr>
      | None \<Rightarrow> search_from r False (Suc i) cs)"

text \<open>\<^verbatim>\<open>re.exec(s)\<close> with \<^verbatim>\<open>lastIndex = li\<close>; the next \<^verbatim>\<open>lastIndex\<close> of a global
  pattern is \<open>end_index\<close> of the match.\<close>

definition exec :: "re \<Rightarrow> string \<Rightarrow> nat \<Rightarrow> rmatch option" where
  "exec r s li = (if li \<le> length s then search_from r (li = 0) li (drop li s) else None)"

definition end_index :: "rmatch \<Rightarrow> nat" where
  "end_index mt = index mt + length (whole mt)"

definition test_re :: "re \<Rightarrow> string \<Rightarrow> bool" where
  "test_re r s = (exec r s 0 \<noteq> None)"

lemma search_from_bounds:
  "search_from r b i s = Some mt \<Longrightarrow> i \<le> index mt \<and> index mt + length (whole mt) \<le> i + length s"
proof (induction s arbitrary: b i)
  case Nil
  then show ?case by (auto split: option.splits)
next
  case (Cons c cs)
  show ?case
  proof (cases "m r \<lparr>bol = b, rest = c # cs, caps = []\<rparr> Some")
    case None
    with Cons.prems have "search_from r False (Suc i) cs = Some mt" by simp
    from Cons.IH [OF this] show ?thesis by simp
  next
    case (Some y)
    with Cons.prems show ?thesis by auto
  qed
qed

lemma exec_bounds:
  "exec r s li = Some mt \<Longrightarrow> li \<le> index mt \<and> end_index mt \<le> length s"
  using search_from_bounds [of r "li = 0" li "drop li s" mt]
  by (auto simp: exec_def end_index_def split: if_splits)

text \<open>
  The loop \<^verbatim>\<open>while ((match = re.exec(s)) !== null)\<close> over a global pattern, started at
  \<^verbatim>\<open>lastIndex = li\<close>: all its matches in order. After an empty match \<^verbatim>\<open>lastIndex\<close>
  does not move and the loop of the source never ends: \<open>None\<close>.
\<close>

function exec_all :: "re \<Rightarrow> string \<Rightarrow> nat \<Rightarrow> rmatch list option" where
  "exec_all r s li =
     (case exec r s li of
        None \<Rightarrow> Some []
      | Some mt \<Rightarrow>
          if whole mt = [] then None
          else map_option ((#) mt) (exec_all r s (end_index mt)))"
  by pat_completeness auto
termination
proof (relation "measure (\<lambda>(r, s, li). Suc (length s) - li)")
  show "wf (measure (\<lambda>(r, s, li). Suc (length s) - li))" by simp
next
  fix r s li mt
  assume "exec r s li = Some mt" "whole mt \<noteq> []"
  from exec_bounds [OF this(1)] this(2)
  show "((r, s, end_index mt), (r, s, li)) \<in> measure (\<lambda>(r, s, li). Suc (length s) - li)"
    by (cases "whole mt") (auto simp: end_index_def)
qed

declare exec_all.simps [simp del]

text \<open>\<^verbatim>\<open>s.match(re)\<close> for a global pattern: the texts of all matches (an empty match
  advances \<^verbatim>\<open>lastIndex\<close> by one); the empty list stands for \<^verbatim>\<open>null\<close>.\<close>

function match_all :: "re \<Rightarrow> string \<Rightarrow> nat \<Rightarrow> string list" where
  "match_all r s li =
     (case exec r s li of
        None \<Rightarrow> []
      | Some mt \<Rightarrow>
          whole mt # match_all r s (if whole mt = [] then Suc (end_index mt) else end_index mt))"
  by pat_completeness auto
termination
proof (relation "measure (\<lambda>(r, s, li). Suc (length s) - li)")
  show "wf (measure (\<lambda>(r, s, li). Suc (length s) - li))" by simp
next
  fix r s li mt
  assume "exec r s li = Some mt"
  from exec_bounds [OF this]
  show "((r, s, if whole mt = [] then Suc (end_index mt) else end_index mt), (r, s, li))
          \<in> measure (\<lambda>(r, s, li). Suc (length s) - li)"
    by (cases "whole mt") (auto simp: end_index_def)
qed

declare match_all.simps [simp del]

subsection \<open>The patterns of the source\<close>

definition chr :: "char \<Rightarrow> re" where
  "chr c = Chars False [Lit c]"

fun Seqs :: "re list \<Rightarrow> re" where
  "Seqs [] = Eps"
| "Seqs [r] = r"
| "Seqs (r # rs) = Seq r (Seqs rs)"

definition Str :: "string \<Rightarrow> re" where
  "Str s = Seqs (map chr s)"

text \<open>
  A literal under the flag \<^verbatim>\<open>i\<close>: a letter matches both its cases. (Without the flag
  \<^verbatim>\<open>u\<close>, \<^verbatim>\<open>Canonicalize\<close> maps no character outside ASCII to an ASCII letter, and the
  classes \<^verbatim>\<open>\w\<close>, \<^verbatim>\<open>\s\<close> and \<^verbatim>\<open>.\<close> match what they match without the flag.)
\<close>

definition chrI :: "char \<Rightarrow> re" where
  "chrI c = (if lower_chr c = upper_ascii c then Chars False [Lit c]
             else Chars False [Lit (lower_chr c), Lit (upper_ascii c)])"

definition StrI :: "string \<Rightarrow> re" where
  "StrI s = Seqs (map chrI s)"

definition Star :: "re \<Rightarrow> re" where "Star r = Rep True 0 None r"
definition StarL :: "re \<Rightarrow> re" where "StarL r = Rep False 0 None r"
definition Plus :: "re \<Rightarrow> re" where "Plus r = Rep True 1 None r"
definition PlusL :: "re \<Rightarrow> re" where "PlusL r = Rep False 1 None r"
definition Opt :: "re \<Rightarrow> re" where "Opt r = Rep True 0 (Some 1) r"

definition LF :: char where "LF = CHR 0x0A"
definition CR :: char where "CR = CHR 0x0D"

text \<open>\<^verbatim>\<open>\s\<close>, \<^verbatim>\<open>\w\<close>, \<^verbatim>\<open>[\s\S]\<close>, \<^verbatim>\<open>.\<close>, \<^verbatim>\<open>[^\n]\<close>, \<^verbatim>\<open>[^*]\<close>,
  \<^verbatim>\<open>#{1,3}\s+\<close>.\<close>

definition ws :: re where "ws = Chars False [Space]"
definition word :: re where "word = Chars False [Word]"
definition anychar :: re where "anychar = Chars False [Space, NonSpace]"
definition dot :: re where "dot = Chars True [Lit LF, Lit CR]"
definition notLF :: re where "notLF = Chars True [Lit LF]"
definition notStar :: re where "notStar = Chars True [Lit CHR ''*'']"
definition hashes :: re where "hashes = Seq (Rep True 1 (Some 3) (chr CHR ''#'')) (Plus ws)"

text \<open>\<^verbatim>\<open>/```json\s*\n([\s\S]*?)\n```/g\<close>\<close>

definition codeBlockPattern :: re where
  "codeBlockPattern =
     Seqs [Str ''```json'', Star ws, chr LF, Grp 1 (StarL anychar), chr LF, Str ''```'']"

text \<open>\<^verbatim>\<open>/\[\s*\{[^[\]]*\}\s*(?:,\s*\{[^[\]]*\}\s*)*\]/g\<close>\<close>

definition jsonArrayPattern :: re where
  "jsonArrayPattern =
     (let notBracket = Chars True [Lit CHR ''['', Lit CHR '']''];
          obj = [chr CHR ''{'', Star notBracket, chr CHR ''}'', Star ws]
      in Seqs ([chr CHR ''['', Star ws] @ obj
               @ [Star (Seqs ([chr CHR '','', Star ws] @ obj)), chr CHR '']'']))"

text \<open>\<^verbatim>\<open>/^(.*?)\s*\(TYPE:\s*(\w+)\)\s*$/i\<close>\<close>

definition typePattern1 :: re where
  "typePattern1 =
     Seqs [Bol, Grp 1 (StarL dot), Star ws, StrI ''(TYPE:'', Star ws, Grp 2 (Plus word),
           chrI CHR '')'', Star ws, Eol]"

text \<open>\<^verbatim>\<open>/^(.*?)\s*\[(\w+)\]\s*$/i\<close>\<close>

definition typePattern2 :: re where
  "typePattern2 =
     Seqs [Bol, Grp 1 (StarL dot), Star ws, chrI CHR ''['', Grp 2 (Plus word), chrI CHR '']'',
           Star ws, Eol]"

text \<open>\<^verbatim>\<open>/\*\*([^*]+)\*\*\s*$/\<close>\<close>

definition boldPattern :: re where
  "boldPattern = Seqs [Str ''**'', Grp 1 (Plus notStar), Str ''**'', Star ws, Eol]"

text \<open>\<^verbatim>\<open>/^Chart Title:\s*/i\<close>\<close>

definition chartTitlePrefix :: re where
  "chartTitlePrefix = Seqs [Bol, StrI ''Chart Title:'', Star ws]"

text \<open>\<^verbatim>\<open>/#{1,3}\s+([^\n]+)\s*$/\<close>\<close>

definition headingPattern :: re where
  "headingPattern = Seqs [hashes, Grp 1 (Plus notLF), Star ws, Eol]"

text \<open>\<^verbatim>\<open>/([^:\n]+):\s*$/\<close>\<close>

definition colonPattern :: re where
  "colonPattern =
     Seqs [Grp 1 (Plus (Chars True [Lit CHR '':'', Lit LF])), chr CHR '':'', Star ws, Eol]"

text \<open>\<^verbatim>\<open>/(?:#{1,3}\s+|\*\*)([\w\s]+?)(?:\*\*)?(?:\n|$)/\<close>\<close>

definition nearHeadingPattern :: re where
  "nearHeadingPattern =
     Seqs [Alt hashes (Str ''**''), Grp 1 (PlusL (Chars False [Word, Space])), Opt (Str ''**''),
           Alt (chr LF) Eol]"

text \<open>\<^verbatim>\<open>/(?:\d+\.|[-\<bullet>])\s+\*\*([^*]+)\*\*/\<close> (the bullet is no code unit below 256)\<close>

definition nearListPattern :: re where
  "nearListPattern =
     Seqs [Alt (Seq (Plus (Chars False [Digit])) (chr CHR ''.'')) (Chars False [Lit CHR ''-'']),
           Plus ws, Str ''**'', Grp 1 (Plus notStar), Str ''**'']"

text \<open>\<^verbatim>\<open>/\|([^\n]+)\|[\s\S]+?\n((?:\|[^\n]+\|\n?)+)/g\<close>\<close>

definition tablePattern :: re where
  "tablePattern =
     Seqs [chr CHR ''|'', Grp 1 (Plus notLF), chr CHR ''|'', PlusL anychar, chr LF,
           Grp 2 (Plus (Seqs [chr CHR ''|'', Plus notLF, chr CHR ''|'', Opt (chr LF)]))]"

text \<open>\<^verbatim>\<open>/(?:#{1,3}\s+|\*\*)([\w\s]+?)(?:\*\*)?[\s\S]{0,50}?((?:[-\<bullet>\d.]\s+[^\n]+:\s*[\d,]+[^\n]*\n?){3,})/g\<close>\<close>

definition listMarker :: re where
  "listMarker = Chars False [Lit CHR ''-'', Digit, Lit CHR ''.'']"

definition digitsCommas :: re where
  "digitsCommas = Plus (Chars False [Digit, Lit CHR '',''])"

definition sectionPattern :: re where
  "sectionPattern =
     Seqs [Alt hashes (Str ''**''), Grp 1 (PlusL (Chars False [Word, Space])), Opt (Str ''**''),
           Rep False 0 (Some 50) anychar,
           Grp 2 (Rep True 3 None
             (Seqs [listMarker, Plus ws, Plus notLF, chr CHR '':'', Star ws, digitsCommas,
                    Star notLF, Opt (chr LF)]))]"

text \<open>\<^verbatim>\<open>/[-\<bullet>\d.]\s+([^:]+?):\s*([\d,]+)/g\<close>\<close>

definition itemPattern :: re where
  "itemPattern =
     Seqs [listMarker, Plus ws, Grp 1 (PlusL (Chars True [Lit CHR '':''])), chr CHR '':'', Star ws,
           Grp 2 digitsCommas]"

text \<open>\<^verbatim>\<open>/date|time|month|year|day|period/i\<close>\<close>

definition timePattern :: re where
  "timePattern =
     Alt (StrI ''date'') (Alt (StrI ''time'') (Alt (StrI ''month'') (Alt (StrI ''year'')
       (Alt (StrI ''day'') (StrI ''period'')))))"

text \<open>
  \<open>cap mt i\<close> is \<^verbatim>\<open>match[i]\<close>. Every group the source reads stands outside all
  alternatives and quantifiers of its pattern, so it takes part in every match.
\<close>

definition cap :: "rmatch \<Rightarrow> nat \<Rightarrow> string" where
  "cap mt i = (case group mt i of Some s \<Rightarrow> s | None \<Rightarrow> [])"

text \<open>\<^verbatim>\<open>s.replace(re, '')\<close> for a pattern without the flag \<^verbatim>\<open>g\<close>.\<close>

definition remove_first :: "re \<Rightarrow> string \<Rightarrow> string" where
  "remove_first r s =
     (case exec r s 0 of None \<Rightarrow> s | Some mt \<Rightarrow> take (index mt) s @ drop (end_index mt) s)"

text \<open>\<^verbatim>\<open>a || b\<close> where \<open>a\<close> is a string, \<^verbatim>\<open>null\<close> or \<^verbatim>\<open>undefined\<close>.\<close>

definition or_else :: "string option \<Rightarrow> string \<Rightarrow> string" where
  "or_else a b = (case a of None \<Rightarrow> b | Some s \<Rightarrow> if s = [] then b else s)"

subsection \<open>Objects\<close>

text \<open>
  \<^verbatim>\<open>typeof v === 'object' && v !== null\<close>, \<^verbatim>\<open>Object.keys(v)\<close> and the own properties
  of a value. An array has its indices as keys. The operator \<^verbatim>\<open>in\<close> also looks along the
  prototype chain; the source asks it for \<^verbatim>\<open>name\<close>, \<^verbatim>\<open>value\<close>, \<^verbatim>\<open>x\<close> and
  \<^verbatim>\<open>y\<close> only, which neither \<^verbatim>\<open>Object.prototype\<close> nor \<^verbatim>\<open>Array.prototype\<close> has.
\<close>

definition is_object :: "json \<Rightarrow> bool" where
  "is_object v = (case v of JObj kvs \<Rightarrow> True | JArr xs \<Rightarrow> True | _ \<Rightarrow> False)"

definition own_props :: "json \<Rightarrow> (string \<times> json) list" where
  "own_props v =
     (case v of
        JObj kvs \<Rightarrow> kvs
      | JArr xs \<Rightarrow> zip (map show_nat [0..<length xs]) xs
      | JStr s \<Rightarrow> zip (map show_nat [0..<length s]) (map (\<lambda>c. JStr [c]) s)
      | _ \<Rightarrow> [])"

definition Object_keys :: "json \<Rightarrow> string list" where
  "Object_keys v = map fst (own_props v)"

definition has_prop :: "string \<Rightarrow> json \<Rightarrow> bool" where
  "has_prop k v = (k \<in> set (Object_keys v))"

definition get_prop :: "json \<Rightarrow> string \<Rightarrow> json option" where
  "get_prop v k = map_of (own_props v) k"

definition truthy :: "json \<Rightarrow> bool" where
  "truthy v =
     (case v of
        JNull \<Rightarrow> False
      | JBool b \<Rightarrow> b
      | JNum n \<Rightarrow> truthy_num n
      | JStr s \<Rightarrow> s \<noteq> []
      | _ \<Rightarrow> True)"

subsection \<open>The operator \<^verbatim>\<open>+\<close> and \<^verbatim>\<open>JSON.stringify\<close>\<close>

text \<open>
  \<^verbatim>\<open>ToString\<close> of a value. An object becomes a string through its method
  \<^verbatim>\<open>toString\<close>: an array through \<^verbatim>\<open>Array.prototype.join\<close> (which prints
  \<^verbatim>\<open>null\<close> as the empty string), any other object through
  \<^verbatim>\<open>Object.prototype.toString\<close>, unless it has an own property \<^verbatim>\<open>toString\<close>. No
  value of \<^verbatim>\<open>JSON.parse\<close> is callable, so such an object has no primitive value and
  the conversion raises a \<^verbatim>\<open>TypeError\<close> (the inherited \<^verbatim>\<open>valueOf\<close> returns the
  object itself, an own \<^verbatim>\<open>valueOf\<close> is not callable either).
\<close>

fun ToString :: "env \<Rightarrow> json \<Rightarrow> error + string"
  and ToString_elements :: "env \<Rightarrow> json list \<Rightarrow> error + string list" where
  "ToString E JNull = Inr ''null''"
| "ToString E (JBool b) = Inr (if b then ''true'' else ''false'')"
| "ToString E (JNum n) = Inr (Number_toString E n)"
| "ToString E (JStr s) = Inr s"
| "ToString E (JArr xs) = map_sum id (join '','') (ToString_elements E xs)"
| "ToString E (JObj kvs) =
     (if ''toString'' \<in> set (map fst kvs) then Inl TypeError else Inr ''[object Object]'')"
| "ToString_elements E [] = Inr []"
| "ToString_elements E (v # vs) =
     (case (if v = JNull then Inr [] else ToString E v) of
        Inl e \<Rightarrow> Inl e
      | Inr s \<Rightarrow> map_sum id ((#) s) (ToString_elements E vs))"

text \<open>\<^verbatim>\<open>ToPrimitive\<close>: an array or object becomes the string above.\<close>

definition ToPrimitive :: "env \<Rightarrow> json \<Rightarrow> error + json" where
  "ToPrimitive E v =
     (case v of
        JArr xs \<Rightarrow> map_sum id JStr (ToString E v)
      | JObj kvs \<Rightarrow> map_sum id JStr (ToString E v)
      | _ \<Rightarrow> Inr v)"

text \<open>\<^verbatim>\<open>ToNumber\<close> of a primitive value that is no string.\<close>

definition ToNumber :: "json \<Rightarrow> jsnum" where
  "ToNumber v =
     (case v of
        JNum n \<Rightarrow> n
      | JBool b \<Rightarrow> Finite (if b then 1 else 0)
      | JNull \<Rightarrow> Finite 0
      | _ \<Rightarrow> NaN)"

text \<open>\<^verbatim>\<open>ToString\<close> of a primitive value.\<close>

definition primitive_string :: "env \<Rightarrow> json \<Rightarrow> string" where
  "primitive_string E v =
     (case v of
        JStr s \<Rightarrow> s
      | JNum n \<Rightarrow> Number_toString E n
      | JBool b \<Rightarrow> (if b then ''true'' else ''false'')
      | _ \<Rightarrow> ''null'')"

definition is_string :: "json \<Rightarrow> bool" where
  "is_string v = (case v of JStr s \<Rightarrow> True | _ \<Rightarrow> False)"

text \<open>
  \<^verbatim>\<open>a + b\<close>: both operands are made primitive, the left one first. When one of the
  primitives is a string the result is the concatenation; otherwise the sum of two numbers.
\<close>

definition js_plus :: "env \<Rightarrow> json \<Rightarrow> json \<Rightarrow> error + json" where
  "js_plus E a b =
     (case ToPrimitive E a of
        Inl e \<Rightarrow> Inl e
      | Inr pa \<Rightarrow>
          (case ToPrimitive E b of
             Inl e \<Rightarrow> Inl e
           | Inr pb \<Rightarrow>
               Inr (if is_string pa \<or> is_string pb
                    then JStr (primitive_string E pa @ primitive_string E pb)
                    else JNum (num_add E (ToNumber pa) (ToNumber pb)))))"

text \<open>\<^verbatim>\<open>v === 0\<close>\<close>

definition is_zero :: "json \<Rightarrow> bool" where
  "is_zero v = (v = JNum (Finite 0))"

definition hex_digit :: "nat \<Rightarrow> char" where
  "hex_digit n = (if n < 10 then char_of (48 + n) else char_of (87 + n))"

definition quote_chr :: "char \<Rightarrow> string" where
  "quote_chr c =
     (if c = CHR 0x22 then [CHR 0x5C, CHR 0x22]
      else if c = CHR 0x5C then [CHR 0x5C, CHR 0x5C]
      else if c = CHR 0x08 then [CHR 0x5C, CHR ''b'']
      else if c = CHR 0x0C then [CHR 0x5C, CHR ''f'']
      else if c = CHR 0x0A then [CHR 0x5C, CHR ''n'']
      else if c = CHR 0x0D then [CHR 0x5C, CHR ''r'']
      else if c = CHR 0x09 then [CHR 0x5C, CHR ''t'']
      else if (of_char c :: nat) < 32
        then [CHR 0x5C, CHR ''u'', CHR ''0'', CHR ''0'',
              hex_digit (of_char c div 16), hex_digit (of_char c mod 16)]
      else [c])"

definition quote :: "string \<Rightarrow> string" where
  "quote s = [CHR 0x22] @ concat (map quote_chr s) @ [CHR 0x22]"

fun JSON_stringify :: "env \<Rightarrow> json \<Rightarrow> string" where
  "JSON_stringify E JNull = ''null''"
| "JSON_stringify E (JBool b) = (if b then ''true'' else ''false'')"
| "JSON_stringify E (JNum n) = (if isFinite n then Number_toString E n else ''null'')"
| "JSON_stringify E (JStr s) = quote s"
| "JSON_stringify E (JArr xs) = ''['' @ join '','' (map (JSON_stringify E) xs) @ '']''"
| "JSON_stringify E (JObj kvs) =
     ''{'' @ join '','' (map (\<lambda>kv. quote (fst kv) @ '':'' @ JSON_stringify E (snd kv)) kvs) @ ''}''"

subsection \<open>The validator\<close>

text \<open>The callback of \<^verbatim>\<open>data.every\<close> in \<^verbatim>\<open>isValidChartData\<close>.\<close>

definition is_number :: "json option \<Rightarrow> bool" where
  "is_number v = (case v of Some (JNum n) \<Rightarrow> True | _ \<Rightarrow> False)"

definition numericFields :: "json \<Rightarrow> string list" where
  "numericFields item =
     filter (\<lambda>k. case get_prop item k of Some (JNum n) \<Rightarrow> \<not> isNaN n | _ \<Rightarrow> False)
       (Object_keys item)"

definition hasValidItem :: "json \<Rightarrow> bool" where
  "hasValidItem item =
     (if \<not> is_object item then False
      else if length (Object_keys item) = 0 then False
      else if has_prop ''name'' item \<and> has_prop ''value'' item
        then (case get_prop item ''value'' of
                Some (JNum n) \<Rightarrow> \<not> isNaN n \<and> isFinite n
              | _ \<Rightarrow> False)
      else if has_prop ''x'' item \<and> has_prop ''y'' item
        then is_number (get_prop item ''x'') \<and> is_number (get_prop item ''y'')
      else length (numericFields item) \<ge> 1)"

text \<open>\<^verbatim>\<open>item.value || 0\<close>\<close>

definition value_or_0 :: "json \<Rightarrow> json" where
  "value_or_0 item =
     (case get_prop item ''value'' of
        None \<Rightarrow> JNum (Finite 0)
      | Some v \<Rightarrow> if truthy v then v else JNum (Finite 0))"

text \<open>\<^verbatim>\<open>values.reduce((a, b) => a + b, 0)\<close>: an exception of \<^verbatim>\<open>+\<close> ends the
  reduction.\<close>

definition value_sum :: "env \<Rightarrow> json list \<Rightarrow> error + json" where
  "value_sum E items =
     foldl (\<lambda>acc b. case acc of Inl e \<Rightarrow> Inl e | Inr a \<Rightarrow> js_plus E a b)
       (Inr (JNum (Finite 0))) (map value_or_0 items)"

definition isValidChartData :: "env \<Rightarrow> json \<Rightarrow> error + bool" where
  "isValidChartData E data =
     (case data of
        JArr items \<Rightarrow>
          if length items = 0 then Inr False
          else if \<not> list_all hasValidItem items then Inr False
          else (case value_sum E items of
                  Inl e \<Rightarrow> Inl e
                | Inr acc \<Rightarrow> if is_zero acc then Inr False else Inr True)
      | _ \<Rightarrow> Inr False)"

subsection \<open>The dataset signature\<close>

text \<open>
  \<^verbatim>\<open>Array.prototype.sort\<close> with a comparator: the sort is stable, and for a consistent
  comparator (as \<^verbatim>\<open>localeCompare\<close> is required to be) its result is the one of a stable
  insertion sort.
\<close>

fun insert_by :: "('a \<Rightarrow> 'a \<Rightarrow> int) \<Rightarrow> 'a \<Rightarrow> 'a list \<Rightarrow> 'a list" where
  "insert_by cmp a [] = [a]"
| "insert_by cmp a (b # bs) = (if cmp a b \<le> 0 then a # b # bs else b # insert_by cmp a bs)"

definition sort_by :: "('a \<Rightarrow> 'a \<Rightarrow> int) \<Rightarrow> 'a list \<Rightarrow> 'a list" where
  "sort_by cmp xs = foldr (insert_by cmp) xs []"

definition compare_items :: "env \<Rightarrow> json \<Rightarrow> json \<Rightarrow> int" where
  "compare_items E a b = localeCompare E (JSON_stringify E a) (JSON_stringify E b)"

text \<open>\<^verbatim>\<open>[...data]\<close> raises a \<^verbatim>\<open>TypeError\<close> unless \<open>data\<close> is iterable.\<close>

definition spread :: "json \<Rightarrow> error + json list" where
  "spread data =
     (case data of
        JArr xs \<Rightarrow> Inr xs
      | JStr s \<Rightarrow> Inr (map (\<lambda>c. JStr [c]) s)
      | _ \<Rightarrow> Inl TypeError)"

definition createDataSignature :: "env \<Rightarrow> json \<Rightarrow> error + string" where
  "createDataSignature E data =
     (case spread data of
        Inl e \<Rightarrow> Inl e
      | Inr xs \<Rightarrow> Inr (JSON_stringify E (JArr (sort_by (compare_items E) xs))))"

subsection \<open>Titles and chart types\<close>

text \<open>
  The value of \<^verbatim>\<open>typeMap[normalized] || 'bar'\<close>: \<^verbatim>\<open>typeMap\<close> is an object literal, so
  the keys \<^verbatim>\<open>constructor\<close> and \<^verbatim>\<open>__proto__\<close> find inherited properties, which are no
  strings.
\<close>

datatype tyval = Kind string | ObjectConstructor | ObjectPrototype

definition typeMap :: "(string \<times> string) list" where
  "typeMap =
     [(''bar'', ''bar''), (''column'', ''bar''), (''line'', ''line''), (''pie'', ''pie''),
      (''donut'', ''pie''), (''area'', ''area''), (''scatter'', ''scatter''),
      (''scatterplot'', ''scatter''), (''radar'', ''radar''), (''table'', ''table''),
      (''heatmap'', ''heatmap''), (''gauge'', ''gauge''), (''funnel'', ''funnel''),
      (''treemap'', ''treemap''), (''histogram'', ''histogram'')]"

definition normalizeChartType :: "string \<Rightarrow> tyval" where
  "normalizeChartType typeStr =
     (let normalized = trim (toLowerCase typeStr)
      in case map_of typeMap normalized of
           Some t \<Rightarrow> Kind t
         | None \<Rightarrow>
             if normalized = ''constructor'' then ObjectConstructor
             else if normalized = ''__proto__'' then ObjectPrototype
             else Kind ''bar'')"

definition extractTitleAndType :: "string \<Rightarrow> string \<times> tyval option" where
  "extractTitleAndType titleStr =
     (if titleStr = [] then (''Chart'', None)
      else case exec typePattern1 titleStr 0 of
        Some match1 \<Rightarrow> (trim (cap match1 1), Some (normalizeChartType (cap match1 2)))
      | None \<Rightarrow>
          (case exec typePattern2 titleStr 0 of
             Some match2 \<Rightarrow> (trim (cap match2 1), Some (normalizeChartType (cap match2 2)))
           | None \<Rightarrow> (trim titleStr, None)))"

definition extractTitleBeforeCodeBlock :: "string \<Rightarrow> nat \<Rightarrow> string option" where
  "extractTitleBeforeCodeBlock fullText codeBlockIndex =
     (let beforeBlock = substring fullText (codeBlockIndex - 150) codeBlockIndex
      in case exec boldPattern beforeBlock 0 of
           Some boldMatch \<Rightarrow> Some (remove_first chartTitlePrefix (trim (cap boldMatch 1)))
         | None \<Rightarrow>
             (case exec headingPattern beforeBlock 0 of
                Some headingMatch \<Rightarrow> Some (trim (cap headingMatch 1))
              | None \<Rightarrow>
                  (case exec colonPattern beforeBlock 0 of
                     Some colonMatch \<Rightarrow> Some (trim (cap colonMatch 1))
                   | None \<Rightarrow> None)))"

definition extractTitleNearData :: "string \<Rightarrow> string \<Rightarrow> string option" where
  "extractTitleNearData fullText dataBlock =
     (case indexOf fullText dataBlock of
        None \<Rightarrow> None
      | Some dataIndex \<Rightarrow>
          (let beforeData = substring fullText (dataIndex - 200) dataIndex
           in case exec nearHeadingPattern beforeData 0 of
                Some headingMatch \<Rightarrow> Some (trim (cap headingMatch 1))
              | None \<Rightarrow>
                  (case exec nearListPattern beforeData 0 of
                     Some listMatch \<Rightarrow> Some (trim (cap listMatch 1))
                   | None \<Rightarrow> None)))"

text \<open>
  \<^verbatim>\<open>detectChartType\<close>. \<open>first_item\<close> is \<^verbatim>\<open>data[0]\<close> once \<^verbatim>\<open>!data || data.length === 0\<close>
  is false; \<^verbatim>\<open>Object.keys\<close> raises a \<^verbatim>\<open>TypeError\<close> on \<^verbatim>\<open>undefined\<close> and \<^verbatim>\<open>null\<close>.
\<close>

definition is_empty_data :: "json \<Rightarrow> bool" where
  "is_empty_data data =
     (\<not> truthy data \<or>
      (case data of
         JArr xs \<Rightarrow> xs = []
       | JObj kvs \<Rightarrow> (case map_of kvs ''length'' of Some v \<Rightarrow> is_zero v | None \<Rightarrow> False)
       | _ \<Rightarrow> False))"

definition first_item :: "json \<Rightarrow> json option" where
  "first_item data = get_prop data ''0''"

definition detectChartType :: "json \<Rightarrow> error + string" where
  "detectChartType data =
     (if is_empty_data data then Inr ''bar''
      else case first_item data of
        None \<Rightarrow> Inl TypeError
      | Some JNull \<Rightarrow> Inl TypeError
      | Some firstItem \<Rightarrow>
          (let keys = Object_keys firstItem
           in if ''x'' \<in> set keys \<and> ''y'' \<in> set keys then Inr ''scatter''
              else if list_ex (test_re timePattern) keys then Inr ''line''
              else if length keys > 5 then Inr ''table''
              else Inr ''bar''))"

subsection \<open>Layout\<close>

record position =
  pos_x :: nat
  pos_y :: nat
  pos_w :: nat
  pos_h :: nat

text \<open>The index is \<^verbatim>\<open>charts.length\<close>, a natural number: \<^verbatim>\<open>Math.floor(index / 2)\<close> is
  \<open>index div 2\<close>.\<close>

definition calculatePosition :: "nat \<Rightarrow> position" where
  "calculatePosition idx =
     (let row = idx div 2; col = idx mod 2
      in \<lparr>pos_x = col * 6, pos_y = row * 4, pos_w = 6, pos_h = 4\<rparr>)"

definition getDefaultColors :: "string list" where
  "getDefaultColors = [''#8B5CF6'', ''#3B82F6'', ''#10B981'', ''#F59E0B'', ''#EF4444'', ''#EC4899'']"

subsection \<open>Chart specifications\<close>

record options =
  showLegend :: bool
  showGrid :: bool

record chart =
  c_id :: string
  c_type :: tyval
  c_title :: string
  c_data :: json
  c_position :: position
  c_options :: options
  c_colors :: "string list"

text \<open>\<^verbatim>\<open>`chart_${Date.now()}_${n}`\<close>\<close>

definition chart_id :: "env \<Rightarrow> nat \<Rightarrow> string" where
  "chart_id E n = ''chart_'' @ show_nat (Date_now E) @ ''_'' @ show_nat n"

definition name_value :: "string \<Rightarrow> jsnum \<Rightarrow> json" where
  "name_value n v = JObj [(''name'', JStr n), (''value'', JNum v)]"

subsection \<open>Tables\<close>

text \<open>
  The callback of \<^verbatim>\<open>rows.map\<close> in \<^verbatim>\<open>extractChartsFromTables\<close>: the name and the value
  of a row (\<^verbatim>\<open>parseFloat(undefined)\<close> is \<^verbatim>\<open>NaN\<close>).
\<close>

definition nonempty_cells :: "string \<Rightarrow> string list" where
  "nonempty_cells row = filter (\<lambda>c. c \<noteq> []) (map trim (split_chr CHR ''|'' row))"

definition row_record :: "env \<Rightarrow> string \<Rightarrow> string \<times> jsnum" where
  "row_record E row =
     (let cells = nonempty_cells row;
          name = (case cells of [] \<Rightarrow> [] | c0 # cs \<Rightarrow> c0);
          v = (case cells of c0 # c1 # cs \<Rightarrow> parseFloat E c1 | _ \<Rightarrow> NaN)
      in (name, if truthy_num v then v else Finite 0))"

definition table_data :: "env \<Rightarrow> string list \<Rightarrow> json list" where
  "table_data E rows =
     map (\<lambda>d. name_value (fst d) (snd d))
       (filter (\<lambda>d. fst d \<noteq> [] \<and> truthy_num (snd d)) (map (row_record E) rows))"

text \<open>The body of the loop of \<^verbatim>\<open>extractChartsFromTables\<close>, for one match.\<close>

definition table_step :: "env \<Rightarrow> string \<Rightarrow> chart list \<Rightarrow> rmatch \<Rightarrow> chart list" where
  "table_step E text charts mt =
     (let headers = nonempty_cells (cap mt 1);
          rows = filter (\<lambda>r. str_includes r ''|'' \<and> \<not> str_includes r ''---'')
                   (split_chr LF (cap mt 2))
      in if length rows > 0 \<and> length headers \<ge> 2
         then (let data = table_data E rows
               in if length data > 0
                  then charts @
                    [\<lparr>c_id = chart_id E (length charts),
                      c_type = Kind ''bar'',
                      c_title = or_else (extractTitleNearData text (whole mt)) ''Data Table'',
                      c_data = JArr data,
                      c_position = calculatePosition (length charts),
                      c_options = \<lparr>showLegend = True, showGrid = True\<rparr>,
                      c_colors = getDefaultColors\<rparr>]
                  else charts)
         else charts)"

definition extractChartsFromTables :: "env \<Rightarrow> string \<Rightarrow> chart list option" where
  "extractChartsFromTables E text =
     map_option (foldl (table_step E text) []) (exec_all tablePattern text 0)"

subsection \<open>Bullet lists\<close>

text \<open>\<^verbatim>\<open>s.replace(/,/g, '')\<close>\<close>

definition remove_commas :: "string \<Rightarrow> string" where
  "remove_commas s = filter (\<lambda>c. c \<noteq> CHR '','') s"

definition item_step :: "env \<Rightarrow> json list \<Rightarrow> rmatch \<Rightarrow> json list" where
  "item_step E data itemMatch =
     (let name = trim (cap itemMatch 1);
          v = parseFloat E (remove_commas (cap itemMatch 2))
      in if name \<noteq> [] \<and> \<not> isNaN v then data @ [name_value name v] else data)"

definition list_step :: "env \<Rightarrow> chart list \<Rightarrow> rmatch \<Rightarrow> chart list option" where
  "list_step E charts mt =
     (let title = trim (cap mt 1); listContent = cap mt 2
      in case exec_all itemPattern listContent 0 of
           None \<Rightarrow> None
         | Some items \<Rightarrow>
             (let data = foldl (item_step E) [] items
              in if length data \<ge> 3
                 then Some (charts @
                    [\<lparr>c_id = chart_id E (length charts),
                      c_type = Kind ''bar'',
                      c_title = or_else (Some title) ''Data Chart'',
                      c_data = JArr data,
                      c_position = calculatePosition (length charts),
                      c_options = \<lparr>showLegend = False, showGrid = True\<rparr>,
                      c_colors = getDefaultColors\<rparr>])
                 else Some charts))"

fun list_loop :: "env \<Rightarrow> chart list \<Rightarrow> rmatch list \<Rightarrow> chart list option" where
  "list_loop E charts [] = Some charts"
| "list_loop E charts (mt # mts) =
     (case list_step E charts mt of None \<Rightarrow> None | Some charts' \<Rightarrow> list_loop E charts' mts)"

definition extractChartsFromLists :: "env \<Rightarrow> string \<Rightarrow> chart list option" where
  "extractChartsFromLists E text =
     (case exec_all sectionPattern text 0 of
        None \<Rightarrow> None
      | Some ms \<Rightarrow> list_loop E [] ms)"

subsection \<open>The pipeline\<close>

definition MAX_CHARTS :: nat where
  "MAX_CHARTS = 8"

record pstate =
  charts :: "chart list"
  seenDataSignatures :: "string list"

text \<open>
  What follows \<^verbatim>\<open>JSON.parse\<close> in both \<^verbatim>\<open>try\<close> blocks of \<^verbatim>\<open>parseChartsFromResponse\<close>,
  with the \<^verbatim>\<open>catch\<close>: \<open>titleRaw\<close> is the title found near the data, if any. An exception
  (of the validator, of the signature or of the classifier) leaves the chart list as it is; a
  signature added before the exception stays.
\<close>

definition add_chart :: "env \<Rightarrow> json \<Rightarrow> string option \<Rightarrow> pstate \<Rightarrow> pstate" where
  "add_chart E data found st =
     (case isValidChartData E data of
        Inl e \<Rightarrow> st
      | Inr valid \<Rightarrow>
          if \<not> valid then st
          else case createDataSignature E data of
            Inl e \<Rightarrow> st
          | Inr dataSignature \<Rightarrow>
              if dataSignature \<in> set (seenDataSignatures st) then st
              else (let st1 = st\<lparr>seenDataSignatures := dataSignature # seenDataSignatures st\<rparr>;
                        titleRaw = or_else found (''Chart '' @ show_nat (length (charts st) + 1));
                        tt = extractTitleAndType titleRaw
                    in case (case snd tt of Some t \<Rightarrow> Inr t
                             | None \<Rightarrow> map_sum id Kind (detectChartType data)) of
                         Inl e \<Rightarrow> st1
                       | Inr chartType \<Rightarrow>
                           st1\<lparr>charts := charts st @
                             [\<lparr>c_id = chart_id E (length (charts st)),
                               c_type = chartType,
                               c_title = fst tt,
                               c_data = data,
                               c_position = calculatePosition (length (charts st)),
                               c_options = \<lparr>showLegend = True, showGrid = True\<rparr>,
                               c_colors = getDefaultColors\<rparr>]\<rparr>))"

text \<open>The \<^verbatim>\<open>try\<close> block of the fenced-block loop; a \<^verbatim>\<open>SyntaxError\<close> of
  \<^verbatim>\<open>JSON.parse\<close> is caught and the block skipped.\<close>

definition try_block :: "env \<Rightarrow> string \<Rightarrow> rmatch \<Rightarrow> pstate \<Rightarrow> pstate" where
  "try_block E text codeBlockMatch st =
     (case JSON_parse E (trim (cap codeBlockMatch 1)) of
        None \<Rightarrow> st
      | Some data \<Rightarrow>
          add_chart E data (extractTitleBeforeCodeBlock text (index codeBlockMatch)) st)"

text \<open>
  The fenced-block loop, from \<^verbatim>\<open>lastIndex = li\<close>. The pattern has no empty match; after
  one the loop of the source would not end.
\<close>

function fenced_loop :: "env \<Rightarrow> string \<Rightarrow> nat \<Rightarrow> pstate \<Rightarrow> pstate option" where
  "fenced_loop E text li st =
     (case exec codeBlockPattern text li of
        None \<Rightarrow> Some st
      | Some codeBlockMatch \<Rightarrow>
          if length (charts st) \<ge> MAX_CHARTS then Some st
          else if whole codeBlockMatch = [] then None
          else fenced_loop E text (end_index codeBlockMatch) (try_block E text codeBlockMatch st))"
  by pat_completeness auto
termination
proof (relation "measure (\<lambda>(E, text, li, st). Suc (length text) - li)")
  show "wf (measure (\<lambda>(E, text, li, st). Suc (length text) - li))" by simp
next
  fix E :: env and s li st mt
  assume "exec codeBlockPattern s li = Some mt" "whole mt \<noteq> []"
  from exec_bounds [OF this(1)] this(2)
  show "((E, s, end_index mt, try_block E s mt st), (E, s, li, st))
          \<in> measure (\<lambda>(E, text, li, st). Suc (length text) - li)"
    by (cases "whole mt") (auto simp: end_index_def)
qed

declare fenced_loop.simps [simp del]

text \<open>The \<^verbatim>\<open>try\<close> block and the loop over the inline arrays.\<close>

definition try_inline :: "env \<Rightarrow> string \<Rightarrow> string \<Rightarrow> pstate \<Rightarrow> pstate" where
  "try_inline E text match st =
     (case JSON_parse E match of
        None \<Rightarrow> st
      | Some data \<Rightarrow> add_chart E data (extractTitleNearData text match) st)"

fun inline_loop :: "env \<Rightarrow> string \<Rightarrow> string list \<Rightarrow> pstate \<Rightarrow> pstate" where
  "inline_loop E text [] st = st"
| "inline_loop E text (match # matches) st =
     (if length (charts st) \<ge> MAX_CHARTS then st
      else inline_loop E text matches (try_inline E text match st))"

text \<open>\<^verbatim>\<open>charts.push(...extracted.slice(0, remainingSlots))\<close>\<close>

definition push_remaining :: "chart list \<Rightarrow> chart list \<Rightarrow> chart list" where
  "push_remaining cs extracted = (let remainingSlots = MAX_CHARTS - length cs
                                  in cs @ take remainingSlots extracted)"

text \<open>The first two strategies of \<^verbatim>\<open>parseChartsFromResponse\<close>: the fenced blocks, then
  the inline arrays.\<close>

definition json_phase :: "env \<Rightarrow> string \<Rightarrow> pstate option" where
  "json_phase E responseText =
     (case fenced_loop E responseText 0 \<lparr>charts = [], seenDataSignatures = []\<rparr> of
        None \<Rightarrow> None
      | Some st0 \<Rightarrow>
          (let jsonMatches = match_all jsonArrayPattern responseText 0
           in Some (if jsonMatches \<noteq> [] \<and> length (charts st0) < MAX_CHARTS
                    then inline_loop E responseText jsonMatches st0 else st0)))"

definition parseChartsFromResponse :: "env \<Rightarrow> string \<Rightarrow> (error + chart list) option" where
  "parseChartsFromResponse E responseText =
     (case json_phase E responseText of
        None \<Rightarrow> None
      | Some st1 \<Rightarrow>
          (let cs1 = charts st1
           in case (if length cs1 < MAX_CHARTS
                    then map_option (push_remaining cs1) (extractChartsFromTables E responseText)
                    else Some cs1) of
                None \<Rightarrow> None
              | Some cs2 \<Rightarrow>
                  (case (if length cs2 < MAX_CHARTS
                         then map_option (push_remaining cs2)
                                (extractChartsFromLists E responseText)
                         else Some cs2) of
                     None \<Rightarrow> None
                   | Some cs3 \<Rightarrow> Some (Inr cs3))))"

subsection \<open>A reference environment and sample texts\<close>

text \<open>
  A concrete environment for examples. Its built-ins agree with a JavaScript engine on the
  arguments the examples pass: \<open>test_parse\<close> reads the JSON texts that occur in the sample
  texts, \<open>test_parseFloat\<close> reads unsigned decimal integers, \<open>test_toString\<close> prints
  non-negative integers, \<open>test_add\<close> is exact on the numbers used, and \<open>lex_compare\<close>
  compares code unit by code unit.
\<close>

fun lex_compare :: "string \<Rightarrow> string \<Rightarrow> int" where
  "lex_compare [] [] = 0"
| "lex_compare [] (b # bs) = - 1"
| "lex_compare (a # as) [] = 1"
| "lex_compare (a # as) (b # bs) =
     (if (of_char a :: nat) < of_char b then - 1
      else if (of_char b :: nat) < of_char a then 1
      else lex_compare as bs)"

definition is_digits :: "string \<Rightarrow> bool" where
  "is_digits s = (s \<noteq> [] \<and> list_all (in_range CHR ''0'' CHR ''9'') s)"

definition digits_val :: "string \<Rightarrow> nat" where
  "digits_val s = foldl (\<lambda>n c. 10 * n + (of_char c - 48)) 0 s"

definition test_parseFloat :: "string \<Rightarrow> jsnum" where
  "test_parseFloat s = (if is_digits s then Finite (of_nat (digits_val s)) else NaN)"

definition test_toString :: "jsnum \<Rightarrow> string" where
  "test_toString n =
     (case n of
        Finite q \<Rightarrow> show_nat (nat \<lfloor>q\<rfloor>)
      | PosInf \<Rightarrow> ''Infinity''
      | NegInf \<Rightarrow> ''-Infinity''
      | NaN \<Rightarrow> ''NaN'')"

definition test_add :: "jsnum \<Rightarrow> jsnum \<Rightarrow> jsnum" where
  "test_add a b =
     (case (a, b) of
        (Finite p, Finite q) \<Rightarrow> Finite (p + q)
      | (NaN, _) \<Rightarrow> NaN
      | (_, NaN) \<Rightarrow> NaN
      | (PosInf, NegInf) \<Rightarrow> NaN
      | (NegInf, PosInf) \<Rightarrow> NaN
      | (PosInf, _) \<Rightarrow> PosInf
      | (_, PosInf) \<Rightarrow> PosInf
      | _ \<Rightarrow> NegInf)"

definition json_AB :: string where
  "json_AB = ''[{\"name\":\"A\",\"value\":10},{\"name\":\"B\",\"value\":20}]''"

definition json_zero :: string where
  "json_zero = ''[{\"name\":\"A\",\"value\":0},{\"name\":\"B\",\"value\":0}]''"

definition json_east :: string where
  "json_east = ''[{\"name\":\"East\",\"value\":120}]''"

text \<open>\<open>json_value n\<close> is the text \<^verbatim>\<open>[{"value":n}]\<close>.\<close>

definition json_value :: "nat \<Rightarrow> string" where
  "json_value n = ''[{\"value\":'' @ show_nat n @ ''}]''"

text \<open>
  Two records whose names differ in a soft hyphen (code unit \<open>0xAD\<close>) only, and the texts of
  the array of the two in both orders.
\<close>

definition shy_item :: json where
  "shy_item = name_value [CHR ''a'', CHR 0xAD] (Finite 1)"

definition plain_item :: json where
  "plain_item = name_value ''a'' (Finite 1)"

definition json_shy :: string where
  "json_shy = ''[{\"name\":\"a'' @ [CHR 0xAD] @ ''\",\"value\":1},{\"name\":\"a\",\"value\":1}]''"

definition json_shy_swapped :: string where
  "json_shy_swapped =
     ''[{\"name\":\"a\",\"value\":1},{\"name\":\"a'' @ [CHR 0xAD] @ ''\",\"value\":1}]''"

definition test_parse :: "string \<Rightarrow> json option" where
  "test_parse s =
     (if s = json_AB then Some (JArr [name_value ''A'' (Finite 10), name_value ''B'' (Finite 20)])
      else if s = json_shy then Some (JArr [shy_item, plain_item])
      else if s = json_shy_swapped then Some (JArr [plain_item, shy_item])
      else if s = json_zero
        then Some (JArr [name_value ''A'' (Finite 0), name_value ''B'' (Finite 0)])
      else if s = json_east then Some (JArr [name_value ''East'' (Finite 120)])
      else if take 10 s = ''[{\"value\":'' \<and> drop (length s - 2) s = ''}]''
              \<and> is_digits (take (length s - 12) (drop 10 s))
        then Some (JArr [JObj [(''value'',
               JNum (Finite (of_nat (digits_val (take (length s - 12) (drop 10 s))))))]])
      else None)"

definition test_env :: env where
  "test_env =
     \<lparr>JSON_parse = test_parse, Number_toString = test_toString, localeCompare = lex_compare,
      parseFloat = test_parseFloat, num_add = test_add, Date_now = 0\<rparr>"

text \<open>
  A comparator that ignores the soft hyphen, as the collation of a locale does, and the
  reference environment with it.
\<close>

definition collate_compare :: "string \<Rightarrow> string \<Rightarrow> int" where
  "collate_compare a b =
     lex_compare (filter (\<lambda>c. c \<noteq> CHR 0xAD) a) (filter (\<lambda>c. c \<noteq> CHR 0xAD) b)"

definition collate_env :: env where
  "collate_env = test_env\<lparr>localeCompare := collate_compare\<rparr>"

definition fence :: "string \<Rightarrow> string" where
  "fence body = ''```json'' @ [LF] @ body @ [LF] @ ''```''"

text \<open>A title line with a type annotation, then a fenced block.\<close>

definition text_revenue :: string where
  "text_revenue = ''**Revenue (TYPE: line)**'' @ [LF] @ fence json_AB"

text \<open>A fenced block whose values are all zero.\<close>

definition text_zero :: string where
  "text_zero = fence json_zero"

text \<open>A fenced block, then a markdown table with the same record.\<close>

definition text_east :: string where
  "text_east = fence json_east @ [LF] @ ''| Region | Sales |'' @ [LF] @ ''|---|---|'' @ [LF]
     @ ''| East | 120 |'' @ [LF]"

text \<open>A heading and a bullet list whose numbers are all zero.\<close>

definition text_list :: string where
  "text_list = ''## Stats'' @ [LF] @ ''- a: 0'' @ [LF] @ ''- b: 0'' @ [LF] @ ''- c: 0'' @ [LF]"

text \<open>Ten fenced blocks with the values \<open>1\<close> to \<open>10\<close>.\<close>

definition text_ten :: string where
  "text_ten = concat (map (\<lambda>n. fence (json_value n) @ [LF]) [1..<11])"


section \<open>Properties\<close>

subsection \<open>What a match consumes\<close>

text \<open>\<open>minlen r\<close> is a lower bound of the length of every match of \<open>r\<close>.\<close>

fun minlen :: "re \<Rightarrow> nat" where
  "minlen (Chars neg cs) = 1"
| "minlen (Seq a b) = minlen a + minlen b"
| "minlen (Alt a b) = min (minlen a) (minlen b)"
| "minlen (Rep g mn mx a) = (case mx of None \<Rightarrow> mn | Some k \<Rightarrow> min mn k) * minlen a"
| "minlen (Grp i a) = minlen a"
| "minlen Bol = 0"
| "minlen Eol = 0"
| "minlen Eps = 0"

definition consumes :: "nat \<Rightarrow> (st \<Rightarrow> (st \<Rightarrow> 'a option) \<Rightarrow> 'a option) \<Rightarrow> bool" where
  "consumes n mb = (\<forall>x k z. mb x k = Some z \<longrightarrow>
      (\<exists>y. k y = Some z \<and> length (rest y) + n \<le> length (rest x)))"

lemma consumesD:
  "consumes n mb \<Longrightarrow> mb x k = Some z \<Longrightarrow>
     \<exists>y. k y = Some z \<and> length (rest y) + n \<le> length (rest x)"
  unfolding consumes_def by (erule allE [of _ x], erule allE [of _ k], erule allE [of _ z]) simp

lemma rep_consumes:
  "consumes n mb \<Longrightarrow> rep mb g mn mx x c = Some z \<Longrightarrow>
     \<exists>y. c y = Some z \<and> length (rest y) + (case mx of None \<Rightarrow> mn | Some k \<Rightarrow> min mn k) * n \<le> length (rest x)"
proof (induction mb g mn mx x c arbitrary: z rule: rep.induct)
  case (1 mb g mn mx x c)
  note mb = "1.prems"(1)
  show ?case
  proof (cases "mx = Some 0")
    case True
    with "1.prems"(2) show ?thesis by (auto simp: rep.simps)
  next
    case False
    define d where "d = (\<lambda>y. if mn = 0 \<and> length (rest y) = length (rest x) then None
                       else if length (rest y) \<le> length (rest x)
                            then rep mb g (mn - 1) (map_option (\<lambda>n. n - 1) mx) y c
                            else None)"
    have unfold: "rep mb g mn mx x c =
        (if mn \<noteq> 0 then mb x d
         else if g then (case mb x d of Some z \<Rightarrow> Some z | None \<Rightarrow> c x)
         else (case c x of Some z \<Rightarrow> Some z | None \<Rightarrow> mb x d))"
      using False by (subst rep.simps) (auto simp: d_def Let_def split: option.splits)
    have via_d: "\<exists>y. c y = Some z \<and>
        length (rest y) + (case mx of None \<Rightarrow> mn | Some k \<Rightarrow> min mn k) * n \<le> length (rest x)"
      if "mb x d = Some z" for z
    proof -
      from consumesD [OF mb that] obtain y
        where y: "d y = Some z" "length (rest y) + n \<le> length (rest x)"
        by (elim exE conjE)
      from y(1) have call: "rep mb g (mn - 1) (map_option (\<lambda>n. n - 1) mx) y c = Some z"
        and guard: "\<not> (mn = 0 \<and> length (rest y) = length (rest x))" "length (rest y) \<le> length (rest x)"
        by (auto simp: d_def split: if_splits)
      from "1.IH" [OF False _ guard(2) mb call] guard(1)
      obtain y' where y': "c y' = Some z"
        "length (rest y') + (case map_option (\<lambda>n. n - 1) mx of None \<Rightarrow> mn - 1 | Some k \<Rightarrow> min (mn - 1) k) * n
           \<le> length (rest y)"
        by (auto simp: d_def)
      have "(case mx of None \<Rightarrow> mn | Some k \<Rightarrow> min mn k)
           \<le> Suc (case map_option (\<lambda>n. n - 1) mx of None \<Rightarrow> mn - 1 | Some k \<Rightarrow> min (mn - 1) k)"
        using False by (cases mx; cases mn) (auto simp: min_def)
      from mult_le_mono1 [OF this, of n]
      have "(case mx of None \<Rightarrow> mn | Some k \<Rightarrow> min mn k) * n
           \<le> (case map_option (\<lambda>n. n - 1) mx of None \<Rightarrow> mn - 1 | Some k \<Rightarrow> min (mn - 1) k) * n + n"
        by simp
      with y' y(2) show ?thesis by (intro exI [of _ y']) simp
    qed
    have direct: "\<exists>y. c y = Some z \<and>
        length (rest y) + (case mx of None \<Rightarrow> mn | Some k \<Rightarrow> min mn k) * n \<le> length (rest x)"
      if "c x = Some z" "mn = 0" for z
      using that by (intro exI [of _ x]) (auto split: option.splits)
    from "1.prems"(2) unfold have "mb x d = Some z \<or> (c x = Some z \<and> mn = 0)"
      by (auto split: if_splits option.splits)
    then show ?thesis
    proof
      assume "mb x d = Some z"
      then show ?thesis by (rule via_d)
    next
      assume "c x = Some z \<and> mn = 0"
      then show ?thesis using direct by blast
    qed
  qed
qed

lemma m_consumes: "consumes (minlen r) (m r :: st \<Rightarrow> (st \<Rightarrow> 'a option) \<Rightarrow> 'a option)"
proof (induction r)
  case (Chars neg cs)
  show ?case
    unfolding consumes_def
  proof (intro allI impI)
    fix x :: st and k :: "st \<Rightarrow> 'a option" and z
    assume "m (Chars neg cs) x k = Some z"
    then show "\<exists>y. k y = Some z \<and> length (rest y) + minlen (Chars neg cs) \<le> length (rest x)"
      by (cases "rest x") (auto split: if_splits intro!: exI [of _ "x\<lparr>bol := False, rest := tl (rest x)\<rparr>"])
  qed
next
  case (Seq a b)
  show ?case
    unfolding consumes_def
  proof (intro allI impI)
    fix x :: st and k :: "st \<Rightarrow> 'a option" and z
    assume "m (Seq a b) x k = Some z"
    then have "m a x (\<lambda>y. m b y k) = Some z" by simp
    from consumesD [OF Seq.IH(1) this]
    obtain y where y: "m b y k = Some z" "length (rest y) + minlen a \<le> length (rest x)"
      by (elim exE conjE)
    from consumesD [OF Seq.IH(2) y(1)]
    obtain y' where "k y' = Some z" "length (rest y') + minlen b \<le> length (rest y)"
      by (elim exE conjE)
    with y(2) show "\<exists>y. k y = Some z \<and> length (rest y) + minlen (Seq a b) \<le> length (rest x)"
      by (intro exI [of _ y']) simp
  qed
next
  case (Alt a b)
  show ?case
    unfolding consumes_def
  proof (intro allI impI)
    fix x :: st and k :: "st \<Rightarrow> 'a option" and z
    assume "m (Alt a b) x k = Some z"
    then have "m a x k = Some z \<or> m b x k = Some z" by (auto split: option.splits)
    then show "\<exists>y. k y = Some z \<and> length (rest y) + minlen (Alt a b) \<le> length (rest x)"
    proof
      assume "m a x k = Some z"
      from consumesD [OF Alt.IH(1) this] show ?thesis by (auto simp: min_def)
    next
      assume "m b x k = Some z"
      from consumesD [OF Alt.IH(2) this] show ?thesis by (auto simp: min_def)
    qed
  qed
next
  case (Rep g mn mx a)
  show ?case
    unfolding consumes_def using rep_consumes [OF Rep.IH] by simp
next
  case (Grp i a)
  show ?case
    unfolding consumes_def
  proof (intro allI impI)
    fix x :: st and k :: "st \<Rightarrow> 'a option" and z
    assume "m (Grp i a) x k = Some z"
    then have "m a x (\<lambda>y. k (y\<lparr>caps := (i, take (length (rest x) - length (rest y)) (rest x)) # caps y\<rparr>)) = Some z"
      by simp
    from consumesD [OF Grp.IH this] obtain y where
      "k (y\<lparr>caps := (i, take (length (rest x) - length (rest y)) (rest x)) # caps y\<rparr>) = Some z"
      "length (rest y) + minlen a \<le> length (rest x)"
      by (elim exE conjE)
    then show "\<exists>y. k y = Some z \<and> length (rest y) + minlen (Grp i a) \<le> length (rest x)"
      by (intro exI [of _ "y\<lparr>caps := (i, take (length (rest x) - length (rest y)) (rest x)) # caps y\<rparr>"]) simp
  qed
qed (auto simp: consumes_def split: if_splits)

lemma search_from_nonempty:
  "search_from r b i s = Some mt \<Longrightarrow> 0 < minlen r \<Longrightarrow> whole mt \<noteq> []"
proof (induction s arbitrary: b i)
  case Nil
  then obtain y where "m r \<lparr>bol = b, rest = [], caps = []\<rparr> Some = Some y"
    by (auto split: option.splits)
  from consumesD [OF m_consumes this] have "minlen r \<le> 0" by auto
  with Nil.prems show ?case by simp
next
  case (Cons c cs)
  show ?case
  proof (cases "m r \<lparr>bol = b, rest = c # cs, caps = []\<rparr> Some")
    case None
    with Cons show ?thesis by simp
  next
    case (Some y)
    from consumesD [OF m_consumes this] have "length (rest y) + minlen r \<le> Suc (length cs)"
      by auto
    with Some Cons.prems show ?thesis by auto
  qed
qed

lemma exec_nonempty: "exec r s li = Some mt \<Longrightarrow> 0 < minlen r \<Longrightarrow> whole mt \<noteq> []"
  by (auto simp: exec_def split: if_splits dest: search_from_nonempty)

lemma exec_all_total: "0 < minlen r \<Longrightarrow> \<exists>ms. exec_all r s li = Some ms"
proof (induction r s li rule: exec_all.induct)
  case (1 r s li)
  show ?case
  proof (cases "exec r s li")
    case None
    then show ?thesis by (subst exec_all.simps) simp
  next
    case (Some mt)
    have ne: "whole mt \<noteq> []" using exec_nonempty [OF Some "1.prems"] .
    from "1.IH" [OF Some ne "1.prems"] obtain ms where "exec_all r s (end_index mt) = Some ms" ..
    with Some ne show ?thesis by (subst exec_all.simps) simp
  qed
qed


lemma minlen_patterns:
  "0 < minlen codeBlockPattern" "0 < minlen tablePattern" "0 < minlen sectionPattern"
  "0 < minlen itemPattern"
  by code_simp+

definition sig_of :: "env \<Rightarrow> chart \<Rightarrow> error + string" where
  "sig_of E c = createDataSignature E (c_data c)"

definition json_inv :: "env \<Rightarrow> pstate \<Rightarrow> bool" where
  "json_inv E st =
     (list_all (\<lambda>c. isValidChartData E (c_data c) = Inr True) (charts st)
      \<and> list_all (\<lambda>c. \<exists>sg. sig_of E c = Inr sg \<and> sg \<in> set (seenDataSignatures st)) (charts st)
      \<and> distinct (map (sig_of E) (charts st))
      \<and> map c_position (charts st) = map calculatePosition [0..<length (charts st)]
      \<and> length (charts st) \<le> MAX_CHARTS)"

lemma add_chart_cases:
  "add_chart E data found st = st \<or>
   (charts (add_chart E data found st) = charts st
      \<and> set (seenDataSignatures st) \<subseteq> set (seenDataSignatures (add_chart E data found st))) \<or>
   (\<exists>c sg. add_chart E data found st
        = \<lparr>charts = charts st @ [c], seenDataSignatures = sg # seenDataSignatures st\<rparr>
      \<and> c_data c = data \<and> isValidChartData E data = Inr True
      \<and> createDataSignature E data = Inr sg
      \<and> sg \<notin> set (seenDataSignatures st)
      \<and> c_position c = calculatePosition (length (charts st)))"
  by (cases st) (auto simp: add_chart_def Let_def split: sum.splits option.splits)

lemma add_chart_inv:
  assumes "json_inv E st" "length (charts st) < MAX_CHARTS"
  shows "json_inv E (add_chart E data found st)"
proof -
  from add_chart_cases [of E data found st]
  consider (same) "add_chart E data found st = st"
    | (seen) "charts (add_chart E data found st) = charts st"
        "set (seenDataSignatures st) \<subseteq> set (seenDataSignatures (add_chart E data found st))"
    | (push) c sg where "add_chart E data found st
        = \<lparr>charts = charts st @ [c], seenDataSignatures = sg # seenDataSignatures st\<rparr>"
      "c_data c = data" "isValidChartData E data = Inr True" "createDataSignature E data = Inr sg"
      "sg \<notin> set (seenDataSignatures st)"
      "c_position c = calculatePosition (length (charts st))"
    by blast
  then show ?thesis
  proof cases
    case same
    with assms show ?thesis by simp
  next
    case seen
    with assms(1) show ?thesis
      unfolding json_inv_def list_all_iff by (simp only: seen(1)) blast
  next
    case push
    have "sig_of E c \<notin> sig_of E ` set (charts st)"
    proof
      assume "sig_of E c \<in> sig_of E ` set (charts st)"
      then obtain c' where c': "c' \<in> set (charts st)" "sig_of E c' = sig_of E c" by auto
      from assms(1) c'(1) obtain sg' where "sig_of E c' = Inr sg'" "sg' \<in> set (seenDataSignatures st)"
        unfolding json_inv_def list_all_iff by blast
      with c'(2) push(2,4,5) show False by (simp add: sig_of_def)
    qed
    with push assms show ?thesis
      by (auto simp: json_inv_def list_all_iff sig_of_def)
  qed
qed

lemma fenced_loop_inv:
  "json_inv E st \<Longrightarrow> fenced_loop E s li st = Some st' \<Longrightarrow> json_inv E st'"
proof (induction E s li st rule: fenced_loop.induct)
  case (1 E s li st)
  show ?case
  proof (cases "exec codeBlockPattern s li")
    case None
    with "1.prems" show ?thesis by (simp add: fenced_loop.simps)
  next
    case (Some mt)
    show ?thesis
    proof (cases "length (charts st) \<ge> MAX_CHARTS")
      case True
      with Some "1.prems" show ?thesis by (simp add: fenced_loop.simps)
    next
      case False
      with Some "1.prems"(2) have ne: "whole mt \<noteq> []"
        and rec: "fenced_loop E s (end_index mt) (try_block E s mt st) = Some st'"
        by (auto simp: fenced_loop.simps [of E s li] split: if_splits)
      have "json_inv E (try_block E s mt st)"
        using "1.prems"(1) False by (auto simp: try_block_def add_chart_inv split: option.splits)
      from "1.IH" [OF Some False ne this rec] show ?thesis .
    qed
  qed
qed

lemma fenced_loop_total: "\<exists>st'. fenced_loop E s li st = Some st'"
proof (induction E s li st rule: fenced_loop.induct)
  case (1 E s li st)
  show ?case
  proof (cases "exec codeBlockPattern s li")
    case None
    then show ?thesis by (simp add: fenced_loop.simps)
  next
    case (Some mt)
    have ne: "whole mt \<noteq> []" using exec_nonempty [OF Some minlen_patterns(1)] .
    show ?thesis
    proof (cases "length (charts st) \<ge> MAX_CHARTS")
      case True
      with Some show ?thesis by (simp add: fenced_loop.simps)
    next
      case False
      from "1.IH" [OF Some False ne] Some False ne show ?thesis
        by (simp add: fenced_loop.simps [of E s li])
    qed
  qed
qed

lemma inline_loop_inv: "json_inv E st \<Longrightarrow> json_inv E (inline_loop E s ms st)"
proof (induction ms arbitrary: st)
  case Nil
  then show ?case by simp
next
  case (Cons a ms)
  show ?case
  proof (cases "length (charts st) \<ge> MAX_CHARTS")
    case True
    with Cons.prems show ?thesis by simp
  next
    case False
    have "json_inv E (try_inline E s a st)"
      using Cons.prems False by (auto simp: try_inline_def add_chart_inv split: option.splits)
    from Cons.IH [OF this] False show ?thesis by simp
  qed
qed

lemma json_inv_init: "json_inv E \<lparr>charts = [], seenDataSignatures = []\<rparr>"
  by (simp add: json_inv_def)

lemma json_phase_total: "\<exists>st. json_phase E s = Some st \<and> json_inv E st"
proof -
  obtain st0 where st0: "fenced_loop E s 0 \<lparr>charts = [], seenDataSignatures = []\<rparr> = Some st0"
    using fenced_loop_total by blast
  from fenced_loop_inv [OF json_inv_init st0] have "json_inv E st0" .
  with st0 show ?thesis
    by (auto simp: json_phase_def Let_def inline_loop_inv)
qed

lemma list_loop_total:
  "\<exists>cs'. list_loop E cs ms = Some cs'"
proof (induction ms arbitrary: cs)
  case Nil
  show ?case by simp
next
  case (Cons mt ms)
  obtain items where "exec_all itemPattern (cap mt 2) 0 = Some items"
    using exec_all_total [OF minlen_patterns(4)] by blast
  then obtain cs1 where "list_step E cs mt = Some cs1"
    by (cases "3 \<le> length (foldl (item_step E) [] items)") (auto simp: list_step_def Let_def)
  with Cons.IH [of cs1] show ?case by simp
qed

lemma extractChartsFromTables_total: "\<exists>cs. extractChartsFromTables E s = Some cs"
  using exec_all_total [OF minlen_patterns(2), of s 0]
  by (auto simp: extractChartsFromTables_def)

lemma extractChartsFromLists_total: "\<exists>cs. extractChartsFromLists E s = Some cs"
  using exec_all_total [OF minlen_patterns(3), of s 0] list_loop_total
  by (auto simp: extractChartsFromLists_def)

lemma push_remaining_length: "length cs \<le> MAX_CHARTS \<Longrightarrow> length (push_remaining cs ex) \<le> MAX_CHARTS"
  by (simp add: push_remaining_def)

text \<open>The shape of the result.\<close>

lemma parse_shape:
  "\<exists>st tcs lcs. json_phase E s = Some st \<and> json_inv E st
     \<and> extractChartsFromTables E s = Some tcs \<and> extractChartsFromLists E s = Some lcs
     \<and> parseChartsFromResponse E s =
         Some (Inr (push_remaining (push_remaining (charts st) tcs) lcs))"
proof -
  obtain st where st: "json_phase E s = Some st" "json_inv E st"
    using json_phase_total by blast
  obtain tcs where tcs: "extractChartsFromTables E s = Some tcs"
    using extractChartsFromTables_total by blast
  obtain lcs where lcs: "extractChartsFromLists E s = Some lcs"
    using extractChartsFromLists_total by blast
  have "parseChartsFromResponse E s = Some (Inr (push_remaining (push_remaining (charts st) tcs) lcs))"
    using st tcs lcs
    by (auto simp: parseChartsFromResponse_def Let_def push_remaining_def json_inv_def)
  with st tcs lcs show ?thesis by blast
qed

subsection \<open>The sample texts, evaluated\<close>

definition bar_chart :: "string \<Rightarrow> json list \<Rightarrow> bool \<Rightarrow> chart" where
  "bar_chart ttl d legend =
     \<lparr>c_id = ''chart_0_0'', c_type = Kind ''bar'', c_title = ttl, c_data = JArr d,
      c_position = \<lparr>pos_x = 0, pos_y = 0, pos_w = 6, pos_h = 4\<rparr>,
      c_options = \<lparr>showLegend = legend, showGrid = True\<rparr>, c_colors = getDefaultColors\<rparr>"

lemma parse_text_east:
  "parseChartsFromResponse test_env text_east =
     Some (Inr [bar_chart ''Chart 1'' [name_value ''East'' (Finite 120)] True,
                bar_chart ''Data Table'' [name_value ''East'' (Finite 120)] True])"
  by code_simp

lemma parse_text_list:
  "parseChartsFromResponse test_env text_list =
     Some (Inr [bar_chart ''S'' [name_value ''a'' (Finite 0), name_value ''b'' (Finite 0),
                  name_value ''c'' (Finite 0)] False])"
  by code_simp




lemma zero_facts:
  "exec codeBlockPattern text_zero 0 = Some \<lparr>index = 0, whole = text_zero, groups = [(1, json_zero)]\<rparr>"
  "exec codeBlockPattern text_zero (length text_zero) = None"
  "trim json_zero = json_zero"
  "text_zero \<noteq> []"
  "match_all jsonArrayPattern text_zero 0 = [json_zero]"
  "exec_all tablePattern text_zero 0 = Some []"
  "exec_all sectionPattern text_zero 0 = Some []"
  by code_simp+

subsection \<open>The validator: C6 and C7\<close>

text \<open>The fields of an element whose value is a finite number (the wording of the
  specification for the generic shape).\<close>

definition finiteNumberFields :: "json \<Rightarrow> string list" where
  "finiteNumberFields item =
     filter (\<lambda>k. case get_prop item k of Some (JNum n) \<Rightarrow> isFinite n | _ \<Rightarrow> False)
       (Object_keys item)"

lemma filter_nonempty_ex: "1 \<le> length (filter P xs) \<Longrightarrow> \<exists>x \<in> set xs. P x"
  by (induction xs) (auto split: if_splits)

text \<open>
  Claim C6, as amended. When the validator accepts an array, every element with neither the
  name/value shape nor the x/y shape has a field whose value is a number other than
  \<open>NaN\<close>. The source tests \<^verbatim>\<open>typeof item[k] === 'number' && !isNaN(item[k])\<close>, which an
  infinite value passes.
\<close>

theorem generic_shape_has_number_not_NaN:
  assumes "isValidChartData E (JArr items) = Inr True" and "item \<in> set items"
    and "\<not> (has_prop ''name'' item \<and> has_prop ''value'' item)"
    and "\<not> (has_prop ''x'' item \<and> has_prop ''y'' item)"
  shows "\<exists>k n. k \<in> set (Object_keys item) \<and> get_prop item k = Some (JNum n) \<and> \<not> isNaN n"
proof -
  from assms(1,2) have "hasValidItem item"
    by (auto simp: isValidChartData_def list_all_iff split: if_splits sum.splits)
  with assms(3,4) have "1 \<le> length (numericFields item)"
    by (auto simp: hasValidItem_def split: if_splits)
  from filter_nonempty_ex [OF this [unfolded numericFields_def]]
  obtain k where "k \<in> set (Object_keys item)"
    "case get_prop item k of Some (JNum n) \<Rightarrow> \<not> isNaN n | _ \<Rightarrow> False"
    by blast
  then show ?thesis by (auto split: option.splits json.splits)
qed

lemma valid_value_1:
  "isValidChartData test_env (JArr [JObj [(''value'', JNum (Finite 1))]]) = Inr True"
  by code_simp

text \<open>The theorem at the array \<^verbatim>\<open>[{"value":1}]\<close>.\<close>

theorem generic_shape_has_number_not_NaN_witness:
  "\<exists>k n. k \<in> set (Object_keys (JObj [(''value'', JNum (Finite 1))]))
      \<and> get_prop (JObj [(''value'', JNum (Finite 1))]) k = Some (JNum n) \<and> \<not> isNaN n"
  by (rule generic_shape_has_number_not_NaN [OF valid_value_1])
     (simp_all add: has_prop_def Object_keys_def own_props_def)

text \<open>
  Claim C6 as stated fails: the array \<^verbatim>\<open>[{"value":Infinity}]\<close> (what \<^verbatim>\<open>JSON.parse\<close>
  returns for \<^verbatim>\<open>[{"value":1e999}]\<close>) is accepted under the generic rule, and its
  element has no field with a finite number.
\<close>

theorem infinite_only_item_accepted:
  "isValidChartData test_env (JArr [JObj [(''value'', JNum PosInf)]]) = Inr True
   \<and> \<not> has_prop ''name'' (JObj [(''value'', JNum PosInf)])
   \<and> \<not> has_prop ''x'' (JObj [(''value'', JNum PosInf)])
   \<and> finiteNumberFields (JObj [(''value'', JNum PosInf)]) = []"
  by code_simp

text \<open>
  Claim C7. When the sum of the \<^verbatim>\<open>value\<close> fields, as \<^verbatim>\<open>isValidChartData\<close> computes it
  (\<^verbatim>\<open>item.value || 0\<close> for every element, added up from \<open>0\<close>), is \<open>0\<close>, the validator
  returns false; and the text whose only data block is
  \<^verbatim>\<open>[{"name":"A","value":0},{"name":"B","value":0}]\<close> yields no chart, in every environment
  whose \<^verbatim>\<open>JSON.parse\<close> reads that block and where \<open>0 + 0 = 0\<close>.
\<close>

theorem zero_sum_rejected:
  "(value_sum E items = Inr v \<and> is_zero v
      \<longrightarrow> isValidChartData E (JArr items) = Inr False)
   \<and> (JSON_parse E json_zero = Some (JArr [name_value ''A'' (Finite 0), name_value ''B'' (Finite 0)])
        \<and> num_add E (Finite 0) (Finite 0) = Finite 0
      \<longrightarrow> parseChartsFromResponse E text_zero = Some (Inr []))"
proof (intro conjI impI)
  assume "value_sum E items = Inr v \<and> is_zero v"
  then show "isValidChartData E (JArr items) = Inr False"
    by (simp add: isValidChartData_def)
next
  assume a: "JSON_parse E json_zero = Some (JArr [name_value ''A'' (Finite 0), name_value ''B'' (Finite 0)])
        \<and> num_add E (Finite 0) (Finite 0) = Finite 0"
  let ?d = "JArr [name_value ''A'' (Finite 0), name_value ''B'' (Finite 0)]"
  have sum0: "value_sum E [name_value ''A'' (Finite 0), name_value ''B'' (Finite 0)]
      = Inr (JNum (Finite 0))"
    using a by (simp add: value_sum_def value_or_0_def name_value_def get_prop_def own_props_def
        truthy_def truthy_num_def js_plus_def ToPrimitive_def is_string_def ToNumber_def)
  have inv: "isValidChartData E ?d = Inr False"
    using sum0 by (simp add: isValidChartData_def is_zero_def)
  have add: "add_chart E ?d found st = st" for found st
    using inv by (simp add: add_chart_def)
  have fl: "fenced_loop E text_zero 0 \<lparr>charts = [], seenDataSignatures = []\<rparr>
      = Some \<lparr>charts = [], seenDataSignatures = []\<rparr>"
    using a
    by (simp add: fenced_loop.simps [of E text_zero] zero_facts MAX_CHARTS_def try_block_def
        cap_def group_def add end_index_def)
  have jp: "json_phase E text_zero = Some \<lparr>charts = [], seenDataSignatures = []\<rparr>"
    using a by (simp add: json_phase_def fl zero_facts MAX_CHARTS_def try_inline_def add)
  show "parseChartsFromResponse E text_zero = Some (Inr [])"
    by (simp add: parseChartsFromResponse_def jp MAX_CHARTS_def extractChartsFromTables_def
        extractChartsFromLists_def zero_facts push_remaining_def)
qed

text \<open>The theorem in the reference environment.\<close>

theorem zero_sum_rejected_witness:
  "value_sum test_env [name_value ''A'' (Finite 0), name_value ''B'' (Finite 0)]
     = Inr (JNum (Finite 0))
   \<and> isValidChartData test_env (JArr [name_value ''A'' (Finite 0), name_value ''B'' (Finite 0)])
     = Inr False
   \<and> JSON_parse test_env json_zero = Some (JArr [name_value ''A'' (Finite 0), name_value ''B'' (Finite 0)])
   \<and> num_add test_env (Finite 0) (Finite 0) = Finite 0
   \<and> parseChartsFromResponse test_env text_zero = Some (Inr [])"
proof -
  have z: "value_sum test_env [name_value ''A'' (Finite 0), name_value ''B'' (Finite 0)]
      = Inr (JNum (Finite 0))" "is_zero (JNum (Finite 0))"
    by code_simp+
  have p: "JSON_parse test_env json_zero = Some (JArr [name_value ''A'' (Finite 0), name_value ''B'' (Finite 0)])"
    by code_simp
  have n: "num_add test_env (Finite 0) (Finite 0) = Finite 0"
    by code_simp
  from zero_sum_rejected [of test_env "[name_value ''A'' (Finite 0), name_value ''B'' (Finite 0)]"
      "JNum (Finite 0)"] z p n
  show ?thesis by blast
qed

subsection \<open>Positions: C5\<close>

text \<open>
  Claim C5 and the code differ. \<^verbatim>\<open>extractChartsFromTables\<close> computes the position of a
  chart from the length of its own list; appended after a chart of a fenced block, the table
  chart stands at index 1 of the output with the position of index 0.
\<close>

theorem table_chart_position_restarts:
  "map_option (map_sum id (map c_position)) (parseChartsFromResponse test_env text_east)
     = Some (Inr [calculatePosition 0, calculatePosition 0])
   \<and> calculatePosition 1 \<noteq> calculatePosition 0"
  by (simp add: parse_text_east bar_chart_def calculatePosition_def)

subsection \<open>The bound on the output: C1\<close>

lemma valid_items:
  "isValidChartData E d = Inr True \<Longrightarrow>
     \<exists>x xs. d = JArr (x # xs) \<and> list_all hasValidItem (x # xs)"
  by (cases d) (auto simp: isValidChartData_def neq_Nil_conv split: if_splits sum.splits)

lemma valid_sig:
  "isValidChartData E d = Inr True \<Longrightarrow> \<exists>sg. createDataSignature E d = Inr sg"
  by (auto dest!: valid_items simp: createDataSignature_def spread_def)

lemma show_nat_0: "show_nat 0 = ''0''"
  by code_simp

lemma first_item_array: "first_item (JArr (x # xs)) = Some x"
  by (simp add: first_item_def get_prop_def own_props_def upt_conv_Cons show_nat_0 del: upt_Suc)

lemma valid_detect: "isValidChartData E d = Inr True \<Longrightarrow> \<exists>t. detectChartType d = Inr t"
proof -
  assume "isValidChartData E d = Inr True"
  then obtain x xs where d: "d = JArr (x # xs)" and "hasValidItem x"
    by (auto dest!: valid_items)
  then have "is_object x" by (auto simp: hasValidItem_def split: if_splits)
  then have "x \<noteq> JNull" by (auto simp: is_object_def)
  then show ?thesis
    by (cases x) (auto simp: d detectChartType_def is_empty_data_def truthy_def first_item_array Let_def)
qed

lemma add_chart_push:
  assumes "isValidChartData E d = Inr True" "createDataSignature E d = Inr sg"
    "sg \<notin> set (seenDataSignatures st)"
  shows "\<exists>c. add_chart E d found st
           = \<lparr>charts = charts st @ [c], seenDataSignatures = sg # seenDataSignatures st\<rparr>
         \<and> c_data c = d"
proof -
  from valid_detect [OF assms(1)] obtain t where "detectChartType d = Inr t" ..
  with assms show ?thesis
    by (cases st) (auto simp: add_chart_def Let_def split: option.splits)
qed

lemma exec_all_Nil: "exec_all r s li = Some [] \<Longrightarrow> exec r s li = None"
  by (subst (asm) exec_all.simps) (auto split: option.splits if_splits)

lemma exec_all_Cons:
  "exec_all r s li = Some (mt # ms) \<Longrightarrow>
     exec r s li = Some mt \<and> whole mt \<noteq> [] \<and> exec_all r s (end_index mt) = Some ms"
  by (subst (asm) exec_all.simps) (auto split: option.splits if_splits)

lemma fenced_loop_blocks:
  assumes "exec_all codeBlockPattern s li = Some ms"
    and "map (\<lambda>mt. JSON_parse E (trim (cap mt 1))) ms = map Some ds"
    and "list_all (\<lambda>d. isValidChartData E d = Inr True) ds"
    and "distinct (map (createDataSignature E) ds)"
    and "\<forall>d \<in> set ds. createDataSignature E d \<notin> Inr ` set (seenDataSignatures st)"
  shows "\<exists>st'. fenced_loop E s li st = Some st'
     \<and> map c_data (charts st') = map c_data (charts st) @ take (MAX_CHARTS - length (charts st)) ds"
  using assms
proof (induction ms arbitrary: li st ds)
  case Nil
  then have "exec codeBlockPattern s li = None" "ds = []"
    by (auto dest: exec_all_Nil)
  then show ?case by (simp add: fenced_loop.simps)
next
  case (Cons mt ms)
  from exec_all_Cons [OF Cons.prems(1)]
  have ex: "exec codeBlockPattern s li = Some mt" and ne: "whole mt \<noteq> []"
    and rest: "exec_all codeBlockPattern s (end_index mt) = Some ms" by auto
  from Cons.prems(2) obtain d ds' where ds: "ds = d # ds'"
    and pd: "JSON_parse E (trim (cap mt 1)) = Some d"
    and pds: "map (\<lambda>mt. JSON_parse E (trim (cap mt 1))) ms = map Some ds'"
    by (cases ds) auto
  show ?case
  proof (cases "MAX_CHARTS \<le> length (charts st)")
    case True
    with ex show ?thesis by (simp add: fenced_loop.simps)
  next
    case False
    from Cons.prems(3) ds have vd: "isValidChartData E d = Inr True" by simp
    from valid_sig [OF vd] obtain sg where sg: "createDataSignature E d = Inr sg" ..
    from Cons.prems(5) ds sg have fresh: "sg \<notin> set (seenDataSignatures st)" by auto
    have tb: "try_block E s mt st = add_chart E d (extractTitleBeforeCodeBlock s (index mt)) st"
      by (simp only: try_block_def pd option.case)
    from add_chart_push [OF vd sg fresh, of "extractTitleBeforeCodeBlock s (index mt)"]
    obtain c where c: "try_block E s mt st
        = \<lparr>charts = charts st @ [c], seenDataSignatures = sg # seenDataSignatures st\<rparr>"
      "c_data c = d"
      unfolding tb by blast
    let ?st1 = "try_block E s mt st"
    have "\<forall>d' \<in> set ds'. createDataSignature E d' \<notin> Inr ` set (seenDataSignatures ?st1)"
    proof
      fix d' assume d': "d' \<in> set ds'"
      with Cons.prems(4) ds sg have "createDataSignature E d' \<noteq> Inr sg" by force
      moreover from d' Cons.prems(5) ds
      have "createDataSignature E d' \<notin> Inr ` set (seenDataSignatures st)" by simp
      ultimately show "createDataSignature E d' \<notin> Inr ` set (seenDataSignatures ?st1)"
        by (auto simp: c(1))
    qed
    from Cons.IH [OF rest pds _ _ this] Cons.prems(3,4) ds
    obtain st' where st': "fenced_loop E s (end_index mt) ?st1 = Some st'"
      "map c_data (charts st') = map c_data (charts ?st1) @ take (MAX_CHARTS - length (charts ?st1)) ds'"
      by auto
    have "fenced_loop E s li st = Some st'"
      using ex False ne st'(1) by (simp add: fenced_loop.simps [of E s li])
    moreover have "map c_data (charts st')
        = map c_data (charts st) @ take (MAX_CHARTS - length (charts st)) ds"
    proof -
      obtain k where k: "MAX_CHARTS - length (charts st) = Suc k"
        using False by (cases "MAX_CHARTS - length (charts st)") auto
      then have "MAX_CHARTS - Suc (length (charts st)) = k" by simp
      with st'(2) c ds k show ?thesis by simp
    qed
    ultimately show ?thesis by blast
  qed
qed

lemma parse_full_json_phase:
  assumes "fenced_loop E s 0 \<lparr>charts = [], seenDataSignatures = []\<rparr> = Some st"
    and "length (charts st) = MAX_CHARTS"
  shows "parseChartsFromResponse E s = Some (Inr (charts st))"
  using assms by (simp add: parseChartsFromResponse_def json_phase_def Let_def)

text \<open>
  Claim C1. The result has at most 8 charts; and when the fenced-block pattern finds at least
  8 blocks (10, say) whose contents parse to valid data with pairwise different signatures,
  the result has exactly 8 charts, with the data of the first 8 blocks in their order.
\<close>

theorem at_most_eight_charts:
  "(\<exists>cs. parseChartsFromResponse E s = Some (Inr cs) \<and> length cs \<le> 8)
   \<and> (exec_all codeBlockPattern s 0 = Some ms \<and> 8 \<le> length ms
        \<and> map (\<lambda>mt. JSON_parse E (trim (cap mt 1))) ms = map Some ds
        \<and> list_all (\<lambda>d. isValidChartData E d = Inr True) ds
        \<and> distinct (map (createDataSignature E) ds)
      \<longrightarrow> (\<exists>cs. parseChartsFromResponse E s = Some (Inr cs) \<and> length cs = 8
             \<and> map c_data cs = take 8 ds))"
proof (intro conjI impI)
  from parse_shape [of E s] obtain st tcs lcs where
    "json_inv E st"
    "parseChartsFromResponse E s = Some (Inr (push_remaining (push_remaining (charts st) tcs) lcs))"
    by blast
  moreover from this(1) have "length (charts st) \<le> MAX_CHARTS" by (simp add: json_inv_def)
  ultimately show "\<exists>cs. parseChartsFromResponse E s = Some (Inr cs) \<and> length cs \<le> 8"
    using push_remaining_length [of "push_remaining (charts st) tcs" lcs]
      push_remaining_length [of "charts st" tcs]
    by (simp add: MAX_CHARTS_def)
next
  assume a: "exec_all codeBlockPattern s 0 = Some ms \<and> 8 \<le> length ms
        \<and> map (\<lambda>mt. JSON_parse E (trim (cap mt 1))) ms = map Some ds
        \<and> list_all (\<lambda>d. isValidChartData E d = Inr True) ds
        \<and> distinct (map (createDataSignature E) ds)"
  then have len: "8 \<le> length ds" by (metis length_map)
  from a fenced_loop_blocks [of s 0 ms E ds "\<lparr>charts = [], seenDataSignatures = []\<rparr>"]
  obtain st where st: "fenced_loop E s 0 \<lparr>charts = [], seenDataSignatures = []\<rparr> = Some st"
    "map c_data (charts st) = take MAX_CHARTS ds"
    by auto
  from st(2) len have "length (charts st) = MAX_CHARTS"
    by (metis MAX_CHARTS_def length_map length_take min.absorb2)
  from parse_full_json_phase [OF st(1) this] st(2) this
  show "\<exists>cs. parseChartsFromResponse E s = Some (Inr cs) \<and> length cs = 8
             \<and> map c_data cs = take 8 ds"
    by (simp add: MAX_CHARTS_def)
qed

text \<open>\<open>value_data n\<close> is the array \<^verbatim>\<open>[{"value":n}]\<close>.\<close>

definition value_data :: "nat \<Rightarrow> json" where
  "value_data n = JArr [JObj [(''value'', JNum (Finite (of_nat n)))]]"

lemma text_ten_blocks2:
  "list_all (\<lambda>d. isValidChartData test_env d = Inr True) (map value_data [1..<11])"
  "distinct (map (createDataSignature test_env) (map value_data [1..<11]))"
  by code_simp+

lemma text_ten_blocks1:
  "map_option (map (\<lambda>mt. JSON_parse test_env (trim (cap mt 1)))) (exec_all codeBlockPattern text_ten 0)
     = Some (map Some (map value_data [1..<11]))"
  by code_simp

lemmas text_ten_blocks = text_ten_blocks1 text_ten_blocks2

text \<open>The theorem at a text of ten fenced blocks, in the reference environment.\<close>

theorem at_most_eight_charts_witness:
  "\<exists>cs. parseChartsFromResponse test_env text_ten = Some (Inr cs) \<and> length cs = 8
      \<and> map c_data cs = map value_data [1..<9]"
proof -
  from text_ten_blocks1 obtain ms where ms: "exec_all codeBlockPattern text_ten 0 = Some ms"
    "map (\<lambda>mt. JSON_parse test_env (trim (cap mt 1))) ms = map Some (map value_data [1..<11])"
    by auto
  from arg_cong [OF ms(2), of length] have "8 \<le> length ms" by simp
  with ms text_ten_blocks2
  have "exec_all codeBlockPattern text_ten 0 = Some ms \<and> 8 \<le> length ms
        \<and> map (\<lambda>mt. JSON_parse test_env (trim (cap mt 1))) ms = map Some (map value_data [1..<11])
        \<and> list_all (\<lambda>d. isValidChartData test_env d = Inr True) (map value_data [1..<11])
        \<and> distinct (map (createDataSignature test_env) (map value_data [1..<11]))"
    by simp
  with at_most_eight_charts [of test_env text_ten ms "map value_data [1..<11]"]
  obtain cs where cs: "parseChartsFromResponse test_env text_ten = Some (Inr cs)" "length cs = 8"
    "map c_data cs = take 8 (map value_data [1..<11])"
    by blast
  have "[1..<11] = [1..<9] @ [9, 10 :: nat]"
    by (simp add: upt_rec)
  then have "take 8 (map value_data [1..<11]) = map value_data [1..<9]"
    by simp
  with cs show ?thesis by auto
qed

subsection \<open>Exceptions: C2\<close>

text \<open>
  Claim C2 and the code differ. Both \<^verbatim>\<open>try\<close> blocks of \<^verbatim>\<open>parseChartsFromResponse\<close>
  begin at \<^verbatim>\<open>JSON.parse\<close>: what the validator, the signature and the classifier raise is
  caught there (the branches \<open>Inl e\<close> of \<open>add_chart\<close> and the branch \<open>None\<close> of
  \<open>try_block\<close> and \<open>try_inline\<close>). The calls of the regular-expression engine that find
  the candidates stand outside of them: \<^verbatim>\<open>codeBlockPattern.exec\<close>,
  \<^verbatim>\<open>responseText.match\<close>, and the loops of \<^verbatim>\<open>extractChartsFromTables\<close> and
  \<^verbatim>\<open>extractChartsFromLists\<close>. In the semantics of the language specification, which the
  matcher \<open>m\<close> follows, these calls raise nothing, and \<open>parse_shape\<close> above shows that every
  run returns a list. An engine has a limit on the backtracking of a match and raises a
  \<^verbatim>\<open>RangeError\<close> beyond it, which then reaches the caller; a heading followed by very
  many list lines makes \<^verbatim>\<open>sectionPattern\<close> do so. No theorem here speaks of that
  outcome.
\<close>

subsection \<open>Validation: C3\<close>

text \<open>\<open>record_with P item\<close>: the item is a record \<^verbatim>\<open>{name: n, value: v}\<close> with a string
  \<open>n\<close> and a number \<open>v\<close> such that \<open>P n v\<close>.\<close>

definition record_with :: "(string \<Rightarrow> jsnum \<Rightarrow> bool) \<Rightarrow> json \<Rightarrow> bool" where
  "record_with P item =
     (case item of
        JObj [(k1, JStr n), (k2, JNum v)] \<Rightarrow> k1 = ''name'' \<and> k2 = ''value'' \<and> P n v
      | _ \<Rightarrow> False)"

text \<open>The guards of the table extractor and of the list extractor, on the data of a chart.\<close>

definition table_guard :: "chart \<Rightarrow> bool" where
  "table_guard c =
     (case c_data c of
        JArr items \<Rightarrow>
          items \<noteq> [] \<and> list_all (record_with (\<lambda>n v. n \<noteq> [] \<and> truthy_num v)) items
      | _ \<Rightarrow> False)"

definition list_guard :: "chart \<Rightarrow> bool" where
  "list_guard c =
     (case c_data c of
        JArr items \<Rightarrow>
          3 \<le> length items \<and> list_all (record_with (\<lambda>n v. n \<noteq> [] \<and> \<not> isNaN v)) items
      | _ \<Rightarrow> False)"

lemma record_with_name_value: "record_with P (name_value n v) = P n v"
  by (simp add: record_with_def name_value_def)

lemma table_data_guard:
  "list_all (record_with (\<lambda>n v. n \<noteq> [] \<and> truthy_num v)) (table_data E rows)"
  by (induction rows) (simp_all add: table_data_def record_with_name_value)

lemma table_step_guard:
  "list_all table_guard cs \<Longrightarrow> list_all table_guard (table_step E s cs mt)"
  by (simp add: table_step_def Let_def table_guard_def table_data_guard)

lemma table_fold_guard:
  "list_all table_guard cs \<Longrightarrow> list_all table_guard (foldl (table_step E s) cs ms)"
  by (induction ms arbitrary: cs) (simp_all add: table_step_guard)

lemma extractChartsFromTables_guard:
  "extractChartsFromTables E s = Some tcs \<Longrightarrow> list_all table_guard tcs"
  using table_fold_guard [of "[]" E s]
  by (auto simp: extractChartsFromTables_def)

lemma item_step_guard:
  "list_all (record_with (\<lambda>n v. n \<noteq> [] \<and> \<not> isNaN v)) data \<Longrightarrow>
   list_all (record_with (\<lambda>n v. n \<noteq> [] \<and> \<not> isNaN v)) (item_step E data im)"
  by (simp add: item_step_def Let_def record_with_name_value)

lemma item_fold_guard:
  "list_all (record_with (\<lambda>n v. n \<noteq> [] \<and> \<not> isNaN v)) data \<Longrightarrow>
   list_all (record_with (\<lambda>n v. n \<noteq> [] \<and> \<not> isNaN v)) (foldl (item_step E) data ims)"
  by (induction ims arbitrary: data) (simp_all add: item_step_guard)

lemma list_step_guard:
  "list_all list_guard cs \<Longrightarrow> list_step E cs mt = Some cs' \<Longrightarrow> list_all list_guard cs'"
  using item_fold_guard [of "[]" E]
  by (auto simp: list_step_def Let_def list_guard_def split: option.splits if_splits)

lemma list_loop_guard:
  "list_all list_guard cs \<Longrightarrow> list_loop E cs ms = Some cs' \<Longrightarrow> list_all list_guard cs'"
proof (induction ms arbitrary: cs)
  case Nil
  then show ?case by simp
next
  case (Cons mt ms)
  from Cons.prems(2) obtain cs1 where s: "list_step E cs mt = Some cs1"
    and l: "list_loop E cs1 ms = Some cs'"
    by (auto split: option.splits)
  from Cons.IH [OF list_step_guard [OF Cons.prems(1) s] l] show ?case .
qed

lemma extractChartsFromLists_guard:
  "extractChartsFromLists E s = Some lcs \<Longrightarrow> list_all list_guard lcs"
  using list_loop_guard [of "[]" E]
  by (auto simp: extractChartsFromLists_def split: option.splits)

text \<open>
  Claim C3, as amended. The result is the charts of the fenced-block and inline-array
  strategies, followed by charts of the table extractor and of the list extractor as far as
  there is room. The data of every chart of the first two strategies satisfies the validator.
  The table and list extractors do not call the validator; the data of a table chart is a
  non-empty array of records with a non-empty name and a truthy value, the data of a list
  chart an array of at least 3 records with a non-empty name and a value that is not
  \<open>NaN\<close>.
\<close>

theorem json_strategies_validated:
  "\<exists>st tcs lcs ts ls.
      json_phase E s = Some st
    \<and> extractChartsFromTables E s = Some tcs \<and> extractChartsFromLists E s = Some lcs
    \<and> ts = take (MAX_CHARTS - length (charts st)) tcs
    \<and> ls = take (MAX_CHARTS - length (charts st @ ts)) lcs
    \<and> parseChartsFromResponse E s = Some (Inr (charts st @ ts @ ls))
    \<and> list_all (\<lambda>c. isValidChartData E (c_data c) = Inr True) (charts st)
    \<and> list_all table_guard tcs \<and> list_all table_guard ts
    \<and> list_all list_guard lcs \<and> list_all list_guard ls"
proof -
  from parse_shape [of E s] obtain st tcs lcs where *:
    "json_phase E s = Some st" "json_inv E st"
    "extractChartsFromTables E s = Some tcs" "extractChartsFromLists E s = Some lcs"
    "parseChartsFromResponse E s = Some (Inr (push_remaining (push_remaining (charts st) tcs) lcs))"
    by blast
  have t: "list_all table_guard tcs" using *(3) by (rule extractChartsFromTables_guard)
  have l: "list_all list_guard lcs" using *(4) by (rule extractChartsFromLists_guard)
  have t': "list_all table_guard (take n tcs)" for n
    using t unfolding list_all_iff by (auto dest: in_set_takeD)
  have l': "list_all list_guard (take n lcs)" for n
    using l unfolding list_all_iff by (auto dest: in_set_takeD)
  from * t l t' l' show ?thesis
    by (simp add: push_remaining_def json_inv_def)
qed

text \<open>The theorem at the text of a fenced block and a table, and at the text of a heading
  and a list, in the reference environment.\<close>

theorem json_strategies_validated_witness:
  "(\<exists>st tcs lcs ts ls.
      json_phase test_env text_east = Some st
    \<and> extractChartsFromTables test_env text_east = Some tcs
    \<and> extractChartsFromLists test_env text_east = Some lcs
    \<and> ts = take (MAX_CHARTS - length (charts st)) tcs
    \<and> ls = take (MAX_CHARTS - length (charts st @ ts)) lcs
    \<and> (Some (Inr [bar_chart ''Chart 1'' [name_value ''East'' (Finite 120)] True,
                bar_chart ''Data Table'' [name_value ''East'' (Finite 120)] True])
          :: (error + chart list) option)
        = Some (Inr (charts st @ ts @ ls))
    \<and> list_all (\<lambda>c. isValidChartData test_env (c_data c) = Inr True) (charts st)
    \<and> list_all table_guard tcs \<and> list_all table_guard ts
    \<and> list_all list_guard lcs \<and> list_all list_guard ls)
   \<and> (\<exists>st tcs lcs ts ls.
      json_phase test_env text_list = Some st
    \<and> extractChartsFromTables test_env text_list = Some tcs
    \<and> extractChartsFromLists test_env text_list = Some lcs
    \<and> ts = take (MAX_CHARTS - length (charts st)) tcs
    \<and> ls = take (MAX_CHARTS - length (charts st @ ts)) lcs
    \<and> (Some (Inr [bar_chart ''S'' [name_value ''a'' (Finite 0), name_value ''b'' (Finite 0),
                  name_value ''c'' (Finite 0)] False])
          :: (error + chart list) option)
        = Some (Inr (charts st @ ts @ ls))
    \<and> list_all (\<lambda>c. isValidChartData test_env (c_data c) = Inr True) (charts st)
    \<and> list_all table_guard tcs \<and> list_all table_guard ts
    \<and> list_all list_guard lcs \<and> list_all list_guard ls)"
  using json_strategies_validated [of test_env text_east]
    json_strategies_validated [of test_env text_list]
  unfolding parse_text_east parse_text_list by (rule conjI)

text \<open>
  Claim C3 as stated fails: the chart the list extractor builds from three items with the
  value \<open>0\<close> has data the validator rejects (its values add up to zero).
\<close>

theorem list_chart_not_validated:
  "map_option (map_sum id (map (\<lambda>c. isValidChartData test_env (c_data c))))
     (parseChartsFromResponse test_env text_list) = Some (Inr [Inr False])"
proof -
  have "isValidChartData test_env
      (JArr [name_value ''a'' (Finite 0), name_value ''b'' (Finite 0), name_value ''c'' (Finite 0)])
    = Inr False"
    by code_simp
  then show ?thesis by (simp add: parse_text_list bar_chart_def)
qed

subsection \<open>The dataset signature: C10\<close>

text \<open>
  \<open>orders_strictly cmp ks\<close>: on the strings \<open>ks\<close> the comparator \<open>cmp\<close> is total and
  transitive, and it returns \<open>0\<close> for no two different strings.
\<close>

definition orders_strictly :: "(string \<Rightarrow> string \<Rightarrow> int) \<Rightarrow> string list \<Rightarrow> bool" where
  "orders_strictly cmp ks =
     list_all (\<lambda>a. list_all (\<lambda>b.
         (cmp a b \<le> 0 \<or> cmp b a \<le> 0)
       \<and> (cmp a b \<le> 0 \<and> cmp b a \<le> 0 \<longrightarrow> a = b)
       \<and> list_all (\<lambda>c. cmp a b \<le> 0 \<and> cmp b c \<le> 0 \<longrightarrow> cmp a c \<le> 0) ks) ks) ks"

lemma orders_strictlyD:
  assumes "orders_strictly cmp ks"
  shows "\<And>a b. a \<in> set ks \<Longrightarrow> b \<in> set ks \<Longrightarrow> cmp a b \<le> 0 \<or> cmp b a \<le> 0"
    and "\<And>a b. a \<in> set ks \<Longrightarrow> b \<in> set ks \<Longrightarrow> cmp a b \<le> 0 \<Longrightarrow> cmp b a \<le> 0 \<Longrightarrow> a = b"
    and "\<And>a b c. a \<in> set ks \<Longrightarrow> b \<in> set ks \<Longrightarrow> c \<in> set ks \<Longrightarrow>
           cmp a b \<le> 0 \<Longrightarrow> cmp b c \<le> 0 \<Longrightarrow> cmp a c \<le> 0"
  using assms unfolding orders_strictly_def list_all_iff by blast+

lemma orders_strictly_set:
  "set ks = set ks' \<Longrightarrow> orders_strictly cmp ks = orders_strictly cmp ks'"
  unfolding orders_strictly_def list_all_iff by simp

lemma insert_by_map:
  "map f (insert_by (\<lambda>a b. cmp (f a) (f b)) a bs) = insert_by cmp (f a) (map f bs)"
  by (induction bs) auto

lemma sort_by_map: "map f (sort_by (\<lambda>a b. cmp (f a) (f b)) xs) = sort_by cmp (map f xs)"
  by (induction xs) (auto simp: sort_by_def insert_by_map)

lemma mset_insert_by: "mset (insert_by cmp a bs) = add_mset a (mset bs)"
  by (induction bs) auto

lemma mset_sort_by: "mset (sort_by cmp xs) = mset xs"
  by (induction xs) (auto simp: sort_by_def mset_insert_by)

lemma set_insert_by: "set (insert_by cmp a bs) = insert a (set bs)"
  using mset_insert_by [of cmp a bs, THEN arg_cong, of set_mset] by simp

lemma sorted_insert_by:
  assumes tot: "\<And>a b. a \<in> K \<Longrightarrow> b \<in> K \<Longrightarrow> cmp a b \<le> 0 \<or> cmp b a \<le> 0"
    and tr: "\<And>a b c. a \<in> K \<Longrightarrow> b \<in> K \<Longrightarrow> c \<in> K \<Longrightarrow>
           cmp a b \<le> 0 \<Longrightarrow> cmp b c \<le> 0 \<Longrightarrow> cmp a c \<le> (0::int)"
  shows "sorted_wrt (\<lambda>a b. cmp a b \<le> 0) bs \<Longrightarrow> a \<in> K \<Longrightarrow> set bs \<subseteq> K \<Longrightarrow>
     sorted_wrt (\<lambda>a b. cmp a b \<le> 0) (insert_by cmp a bs)"
proof (induction bs)
  case Nil
  then show ?case by simp
next
  case (Cons b bs)
  show ?case
  proof (cases "cmp a b \<le> 0")
    case True
    have "cmp a y \<le> 0" if "y \<in> set bs" for y
    proof -
      from Cons.prems(1) that have "cmp b y \<le> 0" by simp
      with True tr [of a b y] Cons.prems(2,3) that show ?thesis by auto
    qed
    with True Cons.prems(1) show ?thesis by simp
  next
    case False
    with tot [of a b] Cons.prems(2,3) have "cmp b a \<le> 0" by auto
    with False Cons show ?thesis by (auto simp: set_insert_by)
  qed
qed

lemma sorted_sort_by:
  assumes tot: "\<And>a b. a \<in> K \<Longrightarrow> b \<in> K \<Longrightarrow> cmp a b \<le> 0 \<or> cmp b a \<le> 0"
    and tr: "\<And>a b c. a \<in> K \<Longrightarrow> b \<in> K \<Longrightarrow> c \<in> K \<Longrightarrow>
           cmp a b \<le> 0 \<Longrightarrow> cmp b c \<le> 0 \<Longrightarrow> cmp a c \<le> (0::int)"
  shows "set ks \<subseteq> K \<Longrightarrow> sorted_wrt (\<lambda>a b. cmp a b \<le> 0) (sort_by cmp ks)"
proof (induction ks)
  case Nil
  show ?case by (simp add: sort_by_def)
next
  case (Cons k ks)
  then have "sorted_wrt (\<lambda>a b. cmp a b \<le> 0) (sort_by cmp ks)" by simp
  moreover have "set (sort_by cmp ks) = set ks"
    using mset_sort_by [of cmp ks, THEN arg_cong, of set_mset] by simp
  ultimately have "sorted_wrt (\<lambda>a b. cmp a b \<le> 0) (insert_by cmp k (sort_by cmp ks))"
    using Cons.prems by (intro sorted_insert_by [where K = K, OF tot tr]) auto
  then show ?case by (simp add: sort_by_def)
qed

lemma sorted_unique:
  assumes anti: "\<And>a b. a \<in> K \<Longrightarrow> b \<in> K \<Longrightarrow> cmp a b \<le> 0 \<Longrightarrow> cmp b a \<le> (0::int) \<Longrightarrow> a = b"
  shows "sorted_wrt (\<lambda>a b. cmp a b \<le> 0) xs \<Longrightarrow> sorted_wrt (\<lambda>a b. cmp a b \<le> 0) ys \<Longrightarrow>
     mset xs = mset ys \<Longrightarrow> set xs \<subseteq> K \<Longrightarrow> xs = ys"
proof (induction xs arbitrary: ys)
  case Nil
  then show ?case by simp
next
  case (Cons x xs)
  from Cons.prems(3) obtain y ys' where ys: "ys = y # ys'" by (cases ys) auto
  have sets: "set (x # xs) = set (y # ys')"
    using Cons.prems(3) ys by (metis set_mset_mset)
  have "x = y"
  proof (rule ccontr)
    assume neq: "x \<noteq> y"
    with sets have "x \<in> set ys'" "y \<in> set xs" by auto
    with Cons.prems(1,2) ys have "cmp y x \<le> 0" "cmp x y \<le> 0" by auto
    with anti [of x y] sets Cons.prems(4) neq show False by auto
  qed
  with Cons.prems ys have "xs = ys'" by (intro Cons.IH) auto
  with \<open>x = y\<close> ys show ?case by simp
qed

lemma sort_by_mset_unique:
  assumes "orders_strictly cmp ks" and "mset ks = mset ks'"
  shows "sort_by cmp ks = sort_by cmp ks'"
proof -
  from assms(2) have sk: "set ks' = set ks" by (metis set_mset_mset)
  note ord = orders_strictlyD [OF assms(1)]
  have sx: "sorted_wrt (\<lambda>a b. cmp a b \<le> 0) (sort_by cmp ks)"
    by (rule sorted_sort_by [of "set ks"]) (use ord in blast)+
  have sy: "sorted_wrt (\<lambda>a b. cmp a b \<le> 0) (sort_by cmp ks')"
    by (rule sorted_sort_by [of "set ks"]) (use ord sk in blast)+
  show ?thesis
  proof (rule sorted_unique [of "set ks" cmp, OF _ sx sy])
    show "mset (sort_by cmp ks) = mset (sort_by cmp ks')"
      by (simp only: mset_sort_by assms(2))
    show "set (sort_by cmp ks) \<subseteq> set ks"
      using mset_sort_by [of cmp ks, THEN arg_cong, of set_mset] by simp
  qed (use ord in blast)
qed

text \<open>The signature is the serialized array of the sorted serialized elements.\<close>

lemma signature_sorted:
  "createDataSignature E (JArr xs)
     = Inr (''['' @ join '','' (sort_by (localeCompare E) (map (JSON_stringify E) xs)) @ '']'')"
  using sort_by_map [of "JSON_stringify E" "localeCompare E" xs]
  by (simp add: createDataSignature_def spread_def compare_items_def [abs_def])

text \<open>
  Claim C10, as amended. When \<^verbatim>\<open>localeCompare\<close> is total and transitive on the serialized
  forms of the elements (the language specification requires a consistent comparison) and
  returns \<open>0\<close> for no two different ones, two arrays that are equal as multisets have the
  same signature.
\<close>

theorem signature_of_equal_multisets:
  assumes "orders_strictly (localeCompare E) (map (JSON_stringify E) xs)"
    and "mset xs = mset ys"
  shows "createDataSignature E (JArr xs) = createDataSignature E (JArr ys)"
proof -
  from assms(2) have "mset (map (JSON_stringify E) xs) = mset (map (JSON_stringify E) ys)"
    by simp
  from sort_by_mset_unique [OF assms(1) this]
  have "sort_by (localeCompare E) (map (JSON_stringify E) xs)
      = sort_by (localeCompare E) (map (JSON_stringify E) ys)" .
  then show ?thesis by (simp only: signature_sorted)
qed

lemma plain_items_ordered:
  "orders_strictly (localeCompare test_env)
     (map (JSON_stringify test_env) [name_value ''B'' (Finite 20), name_value ''A'' (Finite 10)])"
  by code_simp

text \<open>The theorem at an array of two records and its reverse, in the reference environment.\<close>

theorem signature_of_equal_multisets_witness:
  "createDataSignature test_env (JArr [name_value ''B'' (Finite 20), name_value ''A'' (Finite 10)])
   = createDataSignature test_env (JArr [name_value ''A'' (Finite 10), name_value ''B'' (Finite 20)])"
  by (rule signature_of_equal_multisets [OF plain_items_ordered]) simp

lemma shy_signatures:
  "localeCompare collate_env (JSON_stringify collate_env shy_item)
     (JSON_stringify collate_env plain_item) = 0"
  "JSON_stringify collate_env shy_item \<noteq> JSON_stringify collate_env plain_item"
  "createDataSignature collate_env (JArr [shy_item, plain_item])
     \<noteq> createDataSignature collate_env (JArr [plain_item, shy_item])"
  by code_simp+

text \<open>
  Claim C10 as stated fails when \<^verbatim>\<open>localeCompare\<close> returns \<open>0\<close> for two different
  serialized forms: the stable sort then keeps the order of the input, and the two orders of
  one multiset get different signatures. Here the two elements differ in a soft hyphen.
\<close>

theorem signature_depends_on_order:
  "mset [shy_item, plain_item] = mset [plain_item, shy_item]
   \<and> localeCompare collate_env (JSON_stringify collate_env shy_item)
       (JSON_stringify collate_env plain_item) = 0
   \<and> JSON_stringify collate_env shy_item \<noteq> JSON_stringify collate_env plain_item
   \<and> createDataSignature collate_env (JArr [shy_item, plain_item])
     \<noteq> createDataSignature collate_env (JArr [plain_item, shy_item])"
  using shy_signatures by simp

subsection \<open>Duplicates: C4\<close>





















subsection \<open>The classifier: C9\<close>

text \<open>
  The wording of the specification for the classifier: a field name contains a word
  case-insensitively when at some position every character of the word stands in its lower
  or in its upper case.
\<close>

definition ci_eq :: "char \<Rightarrow> char \<Rightarrow> bool" where
  "ci_eq a c = (c = lower_chr a \<or> c = upper_ascii a)"

fun ci_prefix :: "string \<Rightarrow> string \<Rightarrow> bool" where
  "ci_prefix [] s = True"
| "ci_prefix (a # w) [] = False"
| "ci_prefix (a # w) (c # s) = (ci_eq a c \<and> ci_prefix w s)"

fun contains_ci :: "string \<Rightarrow> string \<Rightarrow> bool" where
  "contains_ci w [] = ci_prefix w []"
| "contains_ci w (c # s) = (ci_prefix w (c # s) \<or> contains_ci w s)"

definition time_words :: "string list" where
  "time_words = [''date'', ''time'', ''month'', ''year'', ''day'', ''period'']"

definition infer_type_spec :: "string list \<Rightarrow> string" where
  "infer_type_spec keys =
     (if ''x'' \<in> set keys \<and> ''y'' \<in> set keys then ''scatter''
      else if list_ex (\<lambda>k. list_ex (\<lambda>w. contains_ci w k) time_words) keys then ''line''
      else if length keys > 5 then ''table''
      else ''bar'')"

lemma chrI_letter:
  "lower_chr a \<noteq> upper_ascii a \<Longrightarrow>
   m (chrI a) x k =
     (case rest x of [] \<Rightarrow> None
      | c # r \<Rightarrow> if ci_eq a c then k (x\<lparr>bol := False, rest := r\<rparr>) else None)"
  by (auto simp: chrI_def ci_eq_def split: list.splits)

text \<open>\<open>letters w\<close>: every character of \<open>w\<close> has two cases.\<close>

definition letters :: "string \<Rightarrow> bool" where
  "letters w = list_all (\<lambda>a. lower_chr a \<noteq> upper_ascii a) w"

lemma m_StrI:
  "letters w \<Longrightarrow> w \<noteq> [] \<Longrightarrow>
   m (StrI w) x k =
     (if ci_prefix w (rest x) then k (x\<lparr>bol := False, rest := drop (length w) (rest x)\<rparr>)
      else None)"
proof (induction w arbitrary: x k)
  case Nil
  then show ?case by simp
next
  case (Cons a w)
  from Cons.prems have a: "lower_chr a \<noteq> upper_ascii a" and w: "letters w"
    by (simp_all add: letters_def)
  show ?case
  proof (cases w)
    case Nil
    then show ?thesis
      by (cases "rest x") (simp_all add: StrI_def chrI_letter [OF a])
  next
    case (Cons b w')
    then have "StrI (a # w) = Seq (chrI a) (StrI w)" by (simp add: StrI_def)
    moreover have "w \<noteq> []" using Cons by simp
    ultimately show ?thesis
      using Cons.IH [OF w] by (cases "rest x") (simp_all add: chrI_letter [OF a])
  qed
qed

lemma time_words_letters: "list_all (\<lambda>w. letters w \<and> w \<noteq> []) time_words"
  by code_simp

lemma m_timePattern:
  "(m timePattern \<lparr>bol = b, rest = t, caps = []\<rparr> Some \<noteq> None)
     = list_ex (\<lambda>w. ci_prefix w t) time_words"
  using time_words_letters
  by (simp add: timePattern_def time_words_def m_StrI split: option.splits)

lemma search_timePattern:
  "(search_from timePattern b i s \<noteq> None) = list_ex (\<lambda>w. contains_ci w s) time_words"
proof (induction s arbitrary: b i)
  case Nil
  show ?case
    using m_timePattern [of b "[]"] by (auto simp: list_ex_iff split: option.splits)
next
  case (Cons c s)
  show ?case
    using m_timePattern [of b "c # s"] Cons.IH [of False "Suc i"]
    by (auto simp: list_ex_iff split: option.splits)
qed

lemma test_timePattern: "test_re timePattern k = list_ex (\<lambda>w. contains_ci w k) time_words"
  using search_timePattern [of True 0 k] by (simp add: test_re_def exec_def)

text \<open>
  Claim C9. For valid data (a non-empty array, then) \<^verbatim>\<open>detectChartType\<close> returns what the
  field names of the first record alone determine: \<open>scatter\<close> when \<open>x\<close> and \<open>y\<close> are
  among them, else \<open>line\<close> when a name contains one of the six time words
  case-insensitively, else \<open>table\<close> when there are more than 5 names, else \<open>bar\<close>.
\<close>

theorem detectChartType_first_record:
  assumes "isValidChartData E data = Inr True"
  shows "\<exists>firstItem others. data = JArr (firstItem # others)
     \<and> detectChartType data = Inr (infer_type_spec (Object_keys firstItem))"
proof -
  from valid_items [OF assms] obtain x xs where d: "data = JArr (x # xs)" and "hasValidItem x"
    by auto
  then have "is_object x" by (auto simp: hasValidItem_def split: if_splits)
  then have nn: "x \<noteq> JNull" by (auto simp: is_object_def)
  have "list_ex (test_re timePattern) (Object_keys x)
      = list_ex (\<lambda>k. list_ex (\<lambda>w. contains_ci w k) time_words) (Object_keys x)"
    by (simp add: test_timePattern [abs_def])
  with nn have "detectChartType (JArr (x # xs)) = Inr (infer_type_spec (Object_keys x))"
    by (cases x)
       (simp_all add: detectChartType_def is_empty_data_def truthy_def first_item_array
          Let_def infer_type_spec_def)
  with d show ?thesis by blast
qed

text \<open>One record with a month, a sales figure and a value.\<close>

definition month_data :: json where
  "month_data = JArr [JObj [(''Month'', JStr ''Jan''), (''sales'', JNum (Finite 5)),
                            (''value'', JNum (Finite 5))]]"

lemma month_data_facts:
  "isValidChartData test_env month_data = Inr True"
  "infer_type_spec (Object_keys (JObj [(''Month'', JStr ''Jan''), (''sales'', JNum (Finite 5)),
                            (''value'', JNum (Finite 5))])) = ''line''"
  by code_simp+

text \<open>The theorem at one record with the fields \<open>Month\<close>, \<open>sales\<close> and \<open>value\<close>.\<close>

theorem detectChartType_first_record_witness:
  "detectChartType month_data = Inr ''line''"
  using detectChartType_first_record [OF month_data_facts(1)] month_data_facts(2)
  by (auto simp: month_data_def)

subsection \<open>Title and type annotation: C8\<close>

definition adv :: "nat \<Rightarrow> st \<Rightarrow> st" where
  "adv n x = (if n = 0 then x else x\<lparr>bol := False, rest := drop n (rest x)\<rparr>)"

definition in_class :: "bool \<Rightarrow> cc list \<Rightarrow> char \<Rightarrow> bool" where
  "in_class neg cs c = (list_ex (\<lambda>a. cc_mem a c) cs \<noteq> neg)"

lemma m_Chars:
  "m (Chars neg cs) x k =
     (case rest x of [] \<Rightarrow> None | c # r \<Rightarrow> if in_class neg cs c then k (adv 1 x) else None)"
  by (cases "rest x") (auto simp: in_class_def adv_def)

lemma adv_Suc:
  "rest x = c # r \<Longrightarrow> adv n (adv 1 x) = adv (Suc n) x"
  by (simp add: adv_def)

definition rep_next :: "(st \<Rightarrow> (st \<Rightarrow> 'a option) \<Rightarrow> 'a option) \<Rightarrow> bool \<Rightarrow> nat \<Rightarrow> nat option
    \<Rightarrow> st \<Rightarrow> (st \<Rightarrow> 'a option) \<Rightarrow> st \<Rightarrow> 'a option" where
  "rep_next mb g mn mx x c =
     (\<lambda>y. if mn = 0 \<and> length (rest y) = length (rest x) then None
          else if length (rest y) \<le> length (rest x)
               then rep mb g (mn - 1) (map_option (\<lambda>n. n - 1) mx) y c
               else None)"

lemma rep_unfold:
  "rep mb g mn mx x c =
     (if mx = Some 0 then c x
      else if mn \<noteq> 0 then mb x (rep_next mb g mn mx x c)
      else if g then (case mb x (rep_next mb g mn mx x c) of Some z \<Rightarrow> Some z | None \<Rightarrow> c x)
      else (case c x of Some z \<Rightarrow> Some z | None \<Rightarrow> mb x (rep_next mb g mn mx x c)))"
  by (subst rep.simps, unfold rep_next_def Let_def, rule refl)

lemma rep_cases:
  assumes "rep mb g mn mx x c = Some z" and "mx \<noteq> Some 0"
  shows "mb x (rep_next mb g mn mx x c) = Some z \<or> (c x = Some z \<and> mn = 0)"
proof -
  define r where "r = mb x (rep_next mb g mn mx x c)"
  from assms have "(if mn \<noteq> 0 then r
      else if g then (case r of Some z \<Rightarrow> Some z | None \<Rightarrow> c x)
      else (case c x of Some z \<Rightarrow> Some z | None \<Rightarrow> r)) = Some z"
    unfolding r_def by (subst (asm) rep_unfold) (simp only: if_False)
  then show ?thesis
    unfolding r_def [symmetric] by (cases "mn = 0"; cases g; cases r; cases "c x") simp_all
qed

lemma rep_class_sound:
  "rep (m (Chars neg cs)) g mn None x k = Some z \<Longrightarrow>
     \<exists>n. mn \<le> n \<and> n \<le> length (rest x) \<and> list_all (in_class neg cs) (take n (rest x))
         \<and> k (adv n x) = Some z"
proof (induction "m (Chars neg cs) :: st \<Rightarrow> (st \<Rightarrow> 'a option) \<Rightarrow> 'a option" g mn "None :: nat option" x k
    arbitrary: z rule: rep.induct)
  case (1 g mn x c)
  let ?mb = "m (Chars neg cs) :: st \<Rightarrow> (st \<Rightarrow> 'a option) \<Rightarrow> 'a option"
  let ?d = "rep_next ?mb g mn None x c"
  have direct: ?case if "c x = Some z" "mn = 0"
    using that by (intro exI [of _ 0]) (simp add: adv_def)
  have via_d: ?case if "?mb x ?d = Some z"
  proof -
    from that obtain a r where x: "rest x = a # r" and a: "in_class neg cs a"
      and dz: "?d (adv 1 x) = Some z"
      unfolding m_Chars by (auto split: list.splits if_splits)
    have len: "length (rest (adv 1 x)) < length (rest x)" using x by (simp add: adv_def)
    with dz have call: "rep ?mb g (mn - 1) None (adv 1 x) c = Some z"
      by (auto simp: rep_next_def split: if_splits)
    from len have g1: "\<not> (mn = 0 \<and> length (rest (adv 1 x)) = length (rest x))"
      and g2: "length (rest (adv 1 x)) \<le> length (rest x)" by auto
    have "map_option (\<lambda>n. n - 1) None = (None :: nat option)" by simp
    have "(None :: nat option) \<noteq> Some 0" by simp
    from "1.hyps" [OF this g1 g2 \<open>map_option (\<lambda>n. n - 1) None = (None :: nat option)\<close> call]
    obtain n where n: "mn - 1 \<le> n" "n \<le> length (rest (adv 1 x))"
      "list_all (in_class neg cs) (take n (rest (adv 1 x)))" "c (adv n (adv 1 x)) = Some z"
      by auto
    have r1: "rest (adv 1 x) = r" using x by (simp add: adv_def)
    have eq: "adv n (adv 1 x) = adv (Suc n) x" by (rule adv_Suc [OF x])
    from n(1) have "mn \<le> Suc n" by simp
    moreover from n(2,3) x a r1
    have "Suc n \<le> length (rest x)" "list_all (in_class neg cs) (take (Suc n) (rest x))"
      by simp_all
    moreover from n(4) eq have "c (adv (Suc n) x) = Some z" by simp
    ultimately show ?thesis by blast
  qed
  from rep_cases [OF "1.prems"] have "?mb x ?d = Some z \<or> (c x = Some z \<and> mn = 0)"
    by simp
  with via_d direct show ?case by blast
qed

lemma split_at_first:
  "xs @ a # r = ys @ b # r' \<Longrightarrow> list_all P xs \<Longrightarrow> \<not> P a \<Longrightarrow> list_all P ys \<Longrightarrow> \<not> P b
     \<Longrightarrow> xs = ys \<and> a = b \<and> r = r'"
proof (induction xs arbitrary: ys)
  case Nil
  then show ?case by (cases ys) auto
next
  case (Cons x xs)
  then show ?case by (cases ys) auto
qed


lemma rep_class_greedy:
  "list_all (in_class neg cs) p \<Longrightarrow> rest x = p @ r \<Longrightarrow> (r = [] \<or> \<not> in_class neg cs (hd r))
     \<Longrightarrow> mn \<le> length p \<Longrightarrow> k (adv (length p) x) \<noteq> None
     \<Longrightarrow> rep (m (Chars neg cs)) True mn None x k \<noteq> None"
proof (induction p arbitrary: x mn)
  case Nil
  then have "m (Chars neg cs) x (rep_next (m (Chars neg cs)) True mn None x k) = None"
    unfolding m_Chars by (cases r) auto
  with Nil show ?case
    by (subst rep_unfold) (simp add: adv_def)
next
  case (Cons a p)
  let ?d = "rep_next (m (Chars neg cs)) True mn None x k"
  have r1: "rest (adv 1 x) = p @ r" using Cons.prems(2) by (simp add: adv_def)
  have "k (adv (length p) (adv 1 x)) \<noteq> None"
    using Cons.prems(5) adv_Suc [of x a "p @ r" "length p"] Cons.prems(2) by simp
  then have rec: "rep (m (Chars neg cs)) True (mn - 1) None (adv 1 x) k \<noteq> None"
    by (intro Cons.IH [OF _ r1]) (use Cons.prems in simp_all)
  have "?d (adv 1 x) = rep (m (Chars neg cs)) True (mn - 1) None (adv 1 x) k"
    using r1 Cons.prems(2) by (simp add: rep_next_def)
  with rec Cons.prems(1,2) have "m (Chars neg cs) x ?d \<noteq> None"
    unfolding m_Chars by simp
  then show ?case
    by (subst rep_unfold) (auto split: option.splits)
qed

lemma m_two_stars:
  "m (Str ''**'') x k =
     (case rest x of
        a # b # r \<Rightarrow> if a = CHR ''*'' \<and> b = CHR ''*'' then k (adv 2 x) else None
      | _ \<Rightarrow> None)"
  by (auto simp: Str_def chr_def adv_def split: list.splits)

lemma not_star_class [simp]: "in_class True [Lit CHR ''*''] = (\<lambda>c. c \<noteq> CHR ''*'')"
  by (rule ext) (simp add: in_class_def)

lemma space_class [simp]: "in_class False [Space] = isWhiteSpace"
  by (rule ext) (simp add: in_class_def)

lemma adv_simps [simp]:
  "caps (adv n x) = caps x" "rest (adv n x) = drop n (rest x)"
  by (simp_all add: adv_def)

text \<open>What a match of the bold pattern looks like.\<close>

lemma bold_sound:
  assumes "m boldPattern x Some = Some y" and "caps x = []"
  shows "\<exists>X w. rest x = ''**'' @ X @ ''**'' @ w \<and> X \<noteq> []
      \<and> list_all (\<lambda>c. c \<noteq> CHR ''*'') X \<and> list_all isWhiteSpace w \<and> caps y = [(1, X)]"
proof -
  let ?tail = "Seq (Star ws) Eol"
  let ?R2 = "Seq (Str ''**'') ?tail"
  define K where "K = (\<lambda>(x1 :: st) (y' :: st). m ?R2
      (y'\<lparr>caps := (1, take (length (rest x1) - length (rest y')) (rest x1)) # caps y'\<rparr>) Some)"
  have bp: "m boldPattern x Some
      = m (Str ''**'') x (\<lambda>x1. rep (m (Chars True [Lit CHR ''*''])) True 1 None x1 (K x1))"
    by (simp add: boldPattern_def Plus_def notStar_def K_def)
  from assms(1) obtain r1 where x: "rest x = CHR ''*'' # CHR ''*'' # r1"
    and s1: "rep (m (Chars True [Lit CHR ''*''])) True 1 None (adv 2 x) (K (adv 2 x)) = Some y"
    unfolding bp m_two_stars by (auto split: list.splits if_splits)
  from rep_class_sound [OF s1] obtain n where n: "1 \<le> n" "n \<le> length r1"
    "list_all (\<lambda>c. c \<noteq> CHR ''*'') (take n r1)" "K (adv 2 x) (adv n (adv 2 x)) = Some y"
    using x by auto
  define x2 where "x2 = (adv n (adv 2 x))\<lparr>caps := [(1, take n r1)]\<rparr>"
  have x2: "rest x2 = drop n r1" "caps x2 = [(1, take n r1)]"
    using x by (simp_all add: x2_def)
  have "K (adv 2 x) (adv n (adv 2 x)) = m ?R2 x2 Some"
    using x n(2) assms(2) by (simp add: K_def x2_def)
  with n(4) have "m (Str ''**'') x2 (\<lambda>y. m ?tail y Some) = Some y" by simp
  then obtain r2 where d: "drop n r1 = CHR ''*'' # CHR ''*'' # r2"
    and s2: "m ?tail (adv 2 x2) Some = Some y"
    unfolding m_two_stars x2(1) by (auto split: list.splits if_splits)
  from s2 have "rep (m (Chars False [Space])) True 0 None (adv 2 x2) (\<lambda>y. m Eol y Some) = Some y"
    by (simp add: Star_def ws_def)
  from rep_class_sound [OF this] obtain n2 where n2:
    "list_all isWhiteSpace (take n2 (rest (adv 2 x2)))" "m Eol (adv n2 (adv 2 x2)) Some = Some y"
    by auto
  have r2: "rest (adv 2 x2) = r2" using x2(1) d by simp
  from n2(2) have e: "drop n2 r2 = []" and y: "y = adv n2 (adv 2 x2)"
    using r2 by (auto split: if_splits)
  from e have "take n2 r2 = r2" by simp
  with n2(1) r2 have w: "list_all isWhiteSpace r2" by simp
  have "r1 = take n r1 @ drop n r1" by simp
  with d have "r1 = take n r1 @ ''**'' @ r2" by simp
  with x have "rest x = ''**'' @ take n r1 @ ''**'' @ r2" by simp
  moreover have "take n r1 \<noteq> []" using n(1,2) by (cases r1; cases n) auto
  moreover have "caps y = [(1, take n r1)]" using y x2(2) by simp
  ultimately show ?thesis using n(3) w by blast
qed

lemma not_space_star: "\<not> isWhiteSpace CHR ''*''"
  by (simp add: isWhiteSpace_def)

lemma title_unique:
  assumes eq: "u @ ''**'' @ X @ ''**'' @ sp = ''**'' @ X' @ ''**'' @ w"
    and "list_all (\<lambda>c. c \<noteq> CHR ''*'') X" "list_all (\<lambda>c. c \<noteq> CHR ''*'') X'"
    and "list_all isWhiteSpace sp" "list_all isWhiteSpace w"
  shows "X' = X"
proof -
  from arg_cong [OF eq, of rev]
  have "rev sp @ CHR ''*'' # (CHR ''*'' # rev X @ ''**'' @ rev u)
      = rev w @ CHR ''*'' # (CHR ''*'' # rev X' @ ''**'')"
    by simp
  from split_at_first [OF this, of isWhiteSpace] assms(4,5) not_space_star
  have "rev X @ CHR ''*'' # (CHR ''*'' # rev u) = rev X' @ CHR ''*'' # ''*''"
    by (simp add: list_all_iff)
  from split_at_first [OF this, of "\<lambda>c. c \<noteq> CHR ''*''"] assms(2,3)
  have "rev X = rev X'" by (simp add: list_all_iff)
  then show ?thesis by simp
qed

definition revenue_raw :: string where
  "revenue_raw = ''Revenue (TYPE: line)''"

lemma revenue_raw_facts:
  "list_all (\<lambda>c. c \<noteq> CHR ''*'') revenue_raw" "length revenue_raw = 20"
  "trim revenue_raw = revenue_raw"
  "remove_first chartTitlePrefix revenue_raw = revenue_raw"
  "extractTitleAndType revenue_raw = (''Revenue'', Some (Kind ''line''))"
  "revenue_raw \<noteq> []"
  by code_simp+

lemma bold_complete:
  assumes "list_all isWhiteSpace sp" and "rest x = ''**'' @ revenue_raw @ ''**'' @ sp"
  shows "m boldPattern x Some \<noteq> None"
proof -
  let ?tail = "Seq (Star ws) Eol"
  let ?R2 = "Seq (Str ''**'') ?tail"
  define K where "K = (\<lambda>(x1 :: st) (y' :: st). m ?R2
      (y'\<lparr>caps := (1, take (length (rest x1) - length (rest y')) (rest x1)) # caps y'\<rparr>) Some)"
  have bp: "m boldPattern x Some
      = m (Str ''**'') x (\<lambda>x1. rep (m (Chars True [Lit CHR ''*''])) True 1 None x1 (K x1))"
    by (simp add: boldPattern_def Plus_def notStar_def K_def)
  let ?x1 = "adv 2 x"
  have x1: "rest ?x1 = revenue_raw @ ''**'' @ sp" using assms(2) by simp
  define x2 where "x2 = (adv (length revenue_raw) ?x1)\<lparr>caps :=
      (1, take (length (rest ?x1) - length (rest (adv (length revenue_raw) ?x1))) (rest ?x1))
        # caps (adv (length revenue_raw) ?x1)\<rparr>"
  have x2: "rest x2 = ''**'' @ sp" by (simp add: x2_def assms(2))
  have x3: "rest (adv 2 x2) = sp @ []" using x2 by simp
  have e: "m ?R2 x2 Some
      = rep (m (Chars False [Space])) True 0 None (adv 2 x2) (\<lambda>y. m Eol y Some)"
    by (simp add: m_two_stars x2 Star_def ws_def del: m.simps(1,7))
  have "m ?R2 x2 Some \<noteq> None"
    unfolding e by (rule rep_class_greedy [OF _ x3]) (use assms(1) x2 in simp_all)
  then have k: "K ?x1 (adv (length revenue_raw) ?x1) \<noteq> None"
    by (simp add: K_def x2_def)
  have "rep (m (Chars True [Lit CHR ''*''])) True 1 None ?x1 (K ?x1) \<noteq> None"
    by (rule rep_class_greedy [where p = revenue_raw and r = "''**'' @ sp" and k = "K ?x1",
          OF _ x1 _ _ k]) (use revenue_raw_facts in simp_all)
  then show ?thesis
    unfolding bp m_two_stars using assms(2) by simp
qed

lemma bold_search:
  assumes "list_all isWhiteSpace sp"
  shows "\<exists>mt. search_from boldPattern b i (u @ ''**'' @ revenue_raw @ ''**'' @ sp) = Some mt
     \<and> cap mt 1 = revenue_raw"
proof (induction u arbitrary: b i)
  case Nil
  let ?x = "\<lparr>bol = b, rest = ''**'' @ revenue_raw @ ''**'' @ sp, caps = []\<rparr>"
  from bold_complete [OF assms, of ?x] obtain y where y: "m boldPattern ?x Some = Some y" by auto
  from bold_sound [OF y] obtain X w where
    "''**'' @ revenue_raw @ ''**'' @ sp = ''**'' @ X @ ''**'' @ w"
    "list_all (\<lambda>c. c \<noteq> CHR ''*'') X" "list_all isWhiteSpace w" "caps y = [(1, X)]"
    by auto
  with title_unique [of "[]" revenue_raw sp X w] assms revenue_raw_facts(1)
  have "caps y = [(1, revenue_raw)]" by simp
  with y show ?case by (simp add: cap_def group_def)
next
  case (Cons c u)
  let ?s = "c # u @ ''**'' @ revenue_raw @ ''**'' @ sp"
  let ?x = "\<lparr>bol = b, rest = ?s, caps = []\<rparr>"
  show ?case
  proof (cases "m boldPattern ?x Some")
    case None
    with Cons.IH [of False "Suc i"] show ?thesis by simp
  next
    case (Some y)
    from bold_sound [OF Some] obtain X w where
      "(c # u) @ ''**'' @ revenue_raw @ ''**'' @ sp = ''**'' @ X @ ''**'' @ w"
      "list_all (\<lambda>c. c \<noteq> CHR ''*'') X" "list_all isWhiteSpace w" "caps y = [(1, X)]"
      by auto
    with title_unique [of "c # u" revenue_raw sp X w] assms revenue_raw_facts(1)
    have "caps y = [(1, revenue_raw)]" by simp
    with Some show ?thesis by (simp add: cap_def group_def)
  qed
qed

lemma substring_in_range:
  "a \<le> b \<Longrightarrow> b \<le> length s \<Longrightarrow> substring s a b = take (b - a) (drop a s)"
  by (simp add: substring_def Let_def min_def max_def)

lemma window:
  assumes "length t \<le> 150"
  shows "substring (pre @ t @ post) (length (pre @ t) - 150) (length (pre @ t))
     = drop (length (pre @ t) - 150) pre @ t"
proof -
  define n where "n = length (pre @ t) - 150"
  have n: "n \<le> length pre" using assms by (simp add: n_def)
  have "substring (pre @ t @ post) n (length (pre @ t))
      = take (length (pre @ t) - n) (drop n (pre @ t @ post))"
    using n by (intro substring_in_range) simp_all
  also have "drop n (pre @ t @ post) = (drop n pre @ t) @ post"
    using n by simp
  also have "length (pre @ t) - n = length (drop n pre @ t)"
    using n by simp
  also have "take (length (drop n pre @ t)) ((drop n pre @ t) @ post) = drop n pre @ t"
    by simp
  finally show ?thesis unfolding n_def .
qed

lemma revenue_title: "''**Revenue (TYPE: line)**'' = ''**'' @ revenue_raw @ ''**''"
  by (simp add: revenue_raw_def)

lemma title_before_block:
  assumes "list_all isWhiteSpace sp" and "length sp \<le> 126"
  shows "extractTitleBeforeCodeBlock (pre @ (''**'' @ revenue_raw @ ''**'' @ sp) @ post)
           (length (pre @ ''**'' @ revenue_raw @ ''**'' @ sp)) = Some revenue_raw"
proof -
  define t where "t = ''**'' @ revenue_raw @ ''**'' @ sp"
  have "length t = 24 + length sp" by (simp add: t_def revenue_raw_facts(2))
  with assms(2) have len: "length t \<le> 150" by simp
  define u where "u = drop (length (pre @ t) - 150) pre"
  from bold_search [OF assms(1), of True 0 u]
  obtain mt where mt: "search_from boldPattern True 0 (u @ t) = Some mt" "cap mt 1 = revenue_raw"
    unfolding t_def by blast
  have c: "cap mt (Suc 0) = revenue_raw" using mt(2) by simp
  have "exec boldPattern (u @ t) 0 = Some mt"
    using mt(1) by (simp add: exec_def)
  then have "extractTitleBeforeCodeBlock (pre @ t @ post) (length (pre @ t)) = Some revenue_raw"
    unfolding extractTitleBeforeCodeBlock_def Let_def window [OF len] u_def [symmetric]
    by (simp add: c revenue_raw_facts)
  then show ?thesis unfolding t_def .
qed

lemma add_chart_revenue:
  assumes "isValidChartData E data = Inr True" "createDataSignature E data = Inr sg"
    "sg \<notin> set (seenDataSignatures st)"
  shows "\<exists>c. add_chart E data (Some revenue_raw) st
        = \<lparr>charts = charts st @ [c], seenDataSignatures = sg # seenDataSignatures st\<rparr>
      \<and> c_type c = Kind ''line'' \<and> c_title c = ''Revenue'' \<and> c_data c = data"
  using assms
  by (cases st) (simp add: add_chart_def or_else_def revenue_raw_facts Let_def)

text \<open>The match of the fenced-block pattern in \<open>text_revenue\<close>.\<close>

definition revenue_match :: rmatch where
  "revenue_match = \<lparr>index = 25, whole = fence json_AB, groups = [(1, json_AB)]\<rparr>"

lemma revenue_facts:
  "exec codeBlockPattern text_revenue 0 = Some revenue_match"
  "exec codeBlockPattern text_revenue (end_index revenue_match) = None"
  "trim (cap revenue_match 1) = json_AB"
  "whole revenue_match \<noteq> []"
  "match_all jsonArrayPattern text_revenue 0 = [json_AB]"
  "exec_all tablePattern text_revenue 0 = Some []"
  "exec_all sectionPattern text_revenue 0 = Some []"
  "extractTitleBeforeCodeBlock text_revenue (index revenue_match) = Some revenue_raw"
  by code_simp+

lemma revenue_fenced_loop:
  assumes "JSON_parse E json_AB = Some data"
  shows "fenced_loop E text_revenue 0 \<lparr>charts = [], seenDataSignatures = []\<rparr>
     = Some (add_chart E data (Some revenue_raw) \<lparr>charts = [], seenDataSignatures = []\<rparr>)"
proof -
  let ?init = "\<lparr>charts = [], seenDataSignatures = []\<rparr>"
  have tb: "try_block E text_revenue revenue_match ?init = add_chart E data (Some revenue_raw) ?init"
    by (simp only: try_block_def revenue_facts(3,8) assms option.case)
  have last: "fenced_loop E text_revenue (end_index revenue_match) st = Some st" for st
    by (subst fenced_loop.simps) (simp only: revenue_facts(2) option.case)
  have "fenced_loop E text_revenue 0 ?init
      = fenced_loop E text_revenue (end_index revenue_match)
          (try_block E text_revenue revenue_match ?init)"
    by (subst fenced_loop.simps) (simp add: revenue_facts(1,4) MAX_CHARTS_def)
  then show ?thesis by (simp only: last tb)
qed

text \<open>
  Claim C8. When the text before a fenced block ends with the title
  \<^verbatim>\<open>**Revenue (TYPE: line)**\<close> and white space only (the title within the window of 150
  characters), and the block parses to valid data not seen before, the chart added has the
  type \<open>line\<close> and the title \<open>Revenue\<close>, whatever precedes the title and whatever the
  shape of the data. In particular the text that is this title, a line break and a fenced
  block yields exactly that chart.
\<close>

theorem revenue_title_sets_line_type:
  "(list_all isWhiteSpace sp \<and> length sp \<le> 126
      \<and> fullText = pre @ ''**Revenue (TYPE: line)**'' @ sp @ post
      \<and> index mt = length (pre @ ''**Revenue (TYPE: line)**'' @ sp)
      \<and> JSON_parse E (trim (cap mt 1)) = Some data \<and> isValidChartData E data = Inr True
      \<and> createDataSignature E data = Inr sg \<and> sg \<notin> set (seenDataSignatures st)
    \<longrightarrow> (\<exists>c. charts (try_block E fullText mt st) = charts st @ [c]
           \<and> c_type c = Kind ''line'' \<and> c_title c = ''Revenue'' \<and> c_data c = data))
   \<and> (JSON_parse E json_AB = Some data' \<and> isValidChartData E data' = Inr True
    \<longrightarrow> (\<exists>c. parseChartsFromResponse E text_revenue = Some (Inr [c])
           \<and> c_type c = Kind ''line'' \<and> c_title c = ''Revenue'' \<and> c_data c = data'))"
proof (intro conjI impI)
  assume a: "list_all isWhiteSpace sp \<and> length sp \<le> 126
      \<and> fullText = pre @ ''**Revenue (TYPE: line)**'' @ sp @ post
      \<and> index mt = length (pre @ ''**Revenue (TYPE: line)**'' @ sp)
      \<and> JSON_parse E (trim (cap mt 1)) = Some data \<and> isValidChartData E data = Inr True
      \<and> createDataSignature E data = Inr sg \<and> sg \<notin> set (seenDataSignatures st)"
  then have ws: "list_all isWhiteSpace sp" and len: "length sp \<le> 126"
    and ft: "fullText = pre @ (''**'' @ revenue_raw @ ''**'' @ sp) @ post"
    and idx: "index mt = length (pre @ ''**'' @ revenue_raw @ ''**'' @ sp)"
    and parse: "JSON_parse E (trim (cap mt 1)) = Some data"
    and valid: "isValidChartData E data = Inr True"
    and sg: "createDataSignature E data = Inr sg" "sg \<notin> set (seenDataSignatures st)"
    by (simp_all add: revenue_raw_def)
  have t: "extractTitleBeforeCodeBlock fullText (index mt) = Some revenue_raw"
    unfolding ft idx by (rule title_before_block [OF ws len])
  have tb: "try_block E fullText mt st = add_chart E data (Some revenue_raw) st"
    by (simp only: try_block_def parse t option.case)
  from add_chart_revenue [OF valid sg]
  obtain c where "add_chart E data (Some revenue_raw) st
        = \<lparr>charts = charts st @ [c], seenDataSignatures = sg # seenDataSignatures st\<rparr>"
      "c_type c = Kind ''line''" "c_title c = ''Revenue''" "c_data c = data"
    by blast
  then show "\<exists>c. charts (try_block E fullText mt st) = charts st @ [c]
           \<and> c_type c = Kind ''line'' \<and> c_title c = ''Revenue'' \<and> c_data c = data"
    unfolding tb by (intro exI [of _ c]) simp
next
  assume a: "JSON_parse E json_AB = Some data' \<and> isValidChartData E data' = Inr True"
  then have parse: "JSON_parse E json_AB = Some data'"
    and valid: "isValidChartData E data' = Inr True" by blast+
  let ?init = "\<lparr>charts = [], seenDataSignatures = []\<rparr>"
  from valid_sig [OF valid] obtain sg where sg: "createDataSignature E data' = Inr sg" ..
  from add_chart_revenue [OF valid sg, of ?init]
  obtain c where c: "add_chart E data' (Some revenue_raw) ?init
      = \<lparr>charts = [c], seenDataSignatures = [sg]\<rparr>"
    "c_type c = Kind ''line''" "c_title c = ''Revenue''" "c_data c = data'"
    by auto
  have fl: "fenced_loop E text_revenue 0 ?init = Some \<lparr>charts = [c], seenDataSignatures = [sg]\<rparr>"
    using revenue_fenced_loop [OF parse] c(1) by simp
  have dup: "add_chart E data' found \<lparr>charts = [c], seenDataSignatures = [sg]\<rparr>
      = \<lparr>charts = [c], seenDataSignatures = [sg]\<rparr>" for found
    using valid sg by (simp add: add_chart_def)
  have jp: "json_phase E text_revenue = Some \<lparr>charts = [c], seenDataSignatures = [sg]\<rparr>"
    by (simp add: json_phase_def fl revenue_facts(5) MAX_CHARTS_def try_inline_def parse dup)
  have "parseChartsFromResponse E text_revenue = Some (Inr [c])"
    by (simp add: parseChartsFromResponse_def jp MAX_CHARTS_def extractChartsFromTables_def
        extractChartsFromLists_def revenue_facts(6,7) push_remaining_def)
  with c show "\<exists>c. parseChartsFromResponse E text_revenue = Some (Inr [c])
           \<and> c_type c = Kind ''line'' \<and> c_title c = ''Revenue'' \<and> c_data c = data'"
    by blast
qed

lemma revenue_env_facts:
  "JSON_parse test_env json_AB
     = Some (JArr [name_value ''A'' (Finite 10), name_value ''B'' (Finite 20)])"
  "isValidChartData test_env (JArr [name_value ''A'' (Finite 10), name_value ''B'' (Finite 20)])
     = Inr True"
  "list_all isWhiteSpace [LF]"
  "index revenue_match = length ([] @ ''**Revenue (TYPE: line)**'' @ [LF])"
  "detectChartType (JArr [name_value ''A'' (Finite 10), name_value ''B'' (Finite 20)])
     = Inr ''bar''"
  by code_simp+

text \<open>The theorem at the sample text, in the reference environment: \<open>revenue_match\<close> is the
  match of the fenced block there, and by their shape the records would give a bar chart.\<close>

theorem revenue_title_sets_line_type_witness:
  "exec codeBlockPattern text_revenue 0 = Some revenue_match
   \<and> detectChartType (JArr [name_value ''A'' (Finite 10), name_value ''B'' (Finite 20)])
       = Inr ''bar''
   \<and> (\<exists>c. charts (try_block test_env text_revenue revenue_match
            \<lparr>charts = [], seenDataSignatures = []\<rparr>) = [c]
        \<and> c_type c = Kind ''line'' \<and> c_title c = ''Revenue''
        \<and> c_data c = JArr [name_value ''A'' (Finite 10), name_value ''B'' (Finite 20)])
   \<and> (\<exists>c. parseChartsFromResponse test_env text_revenue = Some (Inr [c])
        \<and> c_type c = Kind ''line'' \<and> c_title c = ''Revenue''
        \<and> c_data c = JArr [name_value ''A'' (Finite 10), name_value ''B'' (Finite 20)])"
proof -
  let ?d = "JArr [name_value ''A'' (Finite 10), name_value ''B'' (Finite 20)]"
  let ?init = "\<lparr>charts = [], seenDataSignatures = []\<rparr>"
  from valid_sig [OF revenue_env_facts(2)] obtain sg
    where sg: "createDataSignature test_env ?d = Inr sg" ..
  have p: "JSON_parse test_env (trim (cap revenue_match 1)) = Some ?d"
    by (simp only: revenue_facts(3) revenue_env_facts(1))
  have tx: "text_revenue = [] @ ''**Revenue (TYPE: line)**'' @ [LF] @ fence json_AB"
    by (simp add: text_revenue_def)
  have h: "list_all isWhiteSpace [LF] \<and> length [LF] \<le> 126
      \<and> text_revenue = [] @ ''**Revenue (TYPE: line)**'' @ [LF] @ fence json_AB
      \<and> index revenue_match = length ([] @ ''**Revenue (TYPE: line)**'' @ [LF])
      \<and> JSON_parse test_env (trim (cap revenue_match 1)) = Some ?d
      \<and> isValidChartData test_env ?d = Inr True
      \<and> createDataSignature test_env ?d = Inr sg \<and> sg \<notin> set (seenDataSignatures ?init)"
    using revenue_env_facts(2,3,4) sg p tx by simp
  from revenue_title_sets_line_type [of "[LF]" text_revenue "[]" "fence json_AB" revenue_match
      test_env ?d sg ?init ?d] h revenue_env_facts(1,2)
  have "(\<exists>c. charts (try_block test_env text_revenue revenue_match ?init) = charts ?init @ [c]
           \<and> c_type c = Kind ''line'' \<and> c_title c = ''Revenue'' \<and> c_data c = ?d)
     \<and> (\<exists>c. parseChartsFromResponse test_env text_revenue = Some (Inr [c])
           \<and> c_type c = Kind ''line'' \<and> c_title c = ''Revenue'' \<and> c_data c = ?d)"
    by blast
  with revenue_facts(1) revenue_env_facts(5) show ?thesis by simp
qed

end
